theory Spec2Isabelle
  imports Complex_Main "HOL-Library.Word"
begin

section \<open>SmuView device acquisition core: BaseDevice and HardwareDevice\<close>

text \<open>
  A shallow embedding of \<^verbatim>\<open>basedevice.cpp\<close> and \<^verbatim>\<open>hardwaredevice.cpp\<close>.
  Member variables keep their names without the trailing underscore
  (\<^verbatim>\<open>frame_began_\<close> is \<open>frame_began\<close>). Objects held through \<^verbatim>\<open>shared_ptr\<close> live
  in an explicit store; a pointer is an address of that store. The recursive mutex
  \<^verbatim>\<open>data_mutex_\<close> and the acquisition thread's body are not part of the model: packet
  dispatch is sequential, one call of \<open>data_feed_in\<close> per packet.
\<close>

subsection \<open>Driver objects (libsigrok)\<close>

text \<open>
  A \<^verbatim>\<open>shared_ptr<sigrok::Channel>\<close> is compared by address; \<open>sr_channel_id\<close> is that
  address, so two driver channels may carry one name.
\<close>

record sr_channel =
  sr_channel_id :: nat
  sr_channel_name :: string

record sr_channel_group =
  sr_cg_name :: string
  sr_cg_channels :: "sr_channel list"

text \<open>
  \<open>sr_dev_channel_groups\<close> is \<^verbatim>\<open>sr_device_->channel_groups()\<close>, a
  \<^verbatim>\<open>map<string, shared_ptr<ChannelGroup>>\<close> listed in its iteration order;
  \<open>sr_dev_channels\<close> is \<^verbatim>\<open>sr_device_->channels()\<close>.
\<close>

record sr_device =
  sr_dev_id :: nat
  sr_dev_channel_groups :: "(string \<times> sr_channel_group) list"
  sr_dev_channels :: "sr_channel list"

record sr_session =
  sess_devices :: "sr_device list"
  sess_datafeed_callbacks :: nat
  sess_stop_requested :: bool

type_synonym sample_value = real
type_synonym timestamp = real

text \<open>
  The payload of an analog packet: \<^verbatim>\<open>num_samples()\<close>, \<^verbatim>\<open>channels()\<close> and the
  floats that \<^verbatim>\<open>get_data_as_float\<close> writes into the caller's buffer. The values are
  only copied, never computed with.
\<close>

record sr_analog =
  an_num_samples :: nat
  an_channels :: "sr_channel list"
  an_data :: "sample_value list"

type_synonym sr_meta = "(string \<times> nat) list"
type_synonym sr_logic = "nat list"

text \<open>The packet with its payload, tagged by \<^verbatim>\<open>sr_packet->type()->id()\<close>.\<close>

datatype sr_packet =
    SR_DF_HEADER
  | SR_DF_END
  | SR_DF_META sr_meta
  | SR_DF_TRIGGER
  | SR_DF_LOGIC sr_logic
  | SR_DF_FRAME_BEGIN
  | SR_DF_FRAME_END
  | SR_DF_ANALOG sr_analog
  | SR_DF_OTHER nat

subsection \<open>Channels, signals and configurables\<close>

text \<open>
  Modelled from the spec: the classes \<^verbatim>\<open>HardwareChannel\<close>, \<^verbatim>\<open>BaseSignal\<close> and
  \<^verbatim>\<open>Configurable\<close> are not among the source files. A Signal is an append-only sequence
  of (timestamp, value) samples, and \<open>actual_signal\<close> is the one new samples are
  appended to. A Channel has a name and a set of channel group names.
\<close>

type_synonym sample = "timestamp \<times> sample_value"

record channel =
  ch_name :: string
  channel_group_names :: "string set"
  channel_start_timestamp :: timestamp
  actual_signal :: "sample list"

record configurable =
  cfg_index :: nat
  cfg_meta_received :: "sr_meta list"

text \<open>
  Modelled from the spec: \<^verbatim>\<open>HardwareChannel::HardwareChannel\<close> is missing. The new
  channel is named as the driver names it, belongs to the given groups, is seeded with
  the device's start timestamp and has no samples yet.
\<close>

definition HardwareChannel :: "sr_channel \<Rightarrow> string set \<Rightarrow> timestamp \<Rightarrow> channel" where
  "HardwareChannel sr_ch chg_names start_timestamp =
     \<lparr>ch_name = sr_channel_name sr_ch, channel_group_names = chg_names,
      channel_start_timestamp = start_timestamp, actual_signal = []\<rparr>"

text \<open>
  Modelled from the spec: \<^verbatim>\<open>BaseChannel::add_channel_group_name\<close> is missing; it
  adds the group membership.
\<close>

definition add_channel_group_name :: "string \<Rightarrow> channel \<Rightarrow> channel" where
  "add_channel_group_name g ch = ch\<lparr>channel_group_names := insert g (channel_group_names ch)\<rparr>"

text \<open>
  Modelled from the spec: \<^verbatim>\<open>HardwareChannel::push_interleaved_samples\<close> is missing.
  The spec has the channel push its strided slice of the interleaved buffer to the
  signal new samples are appended to, every sample with the timestamp of the call.
  \<open>data\<close> and \<open>off\<close> stand for the pointer \<^verbatim>\<open>channel_data\<close>: the buffer and the
  offset the pointer has reached in it.
\<close>

definition push_interleaved_samples ::
  "sample_value list \<Rightarrow> nat \<Rightarrow> nat \<Rightarrow> nat \<Rightarrow> timestamp \<Rightarrow> 64 word \<Rightarrow> channel \<Rightarrow> channel" where
  "push_interleaved_samples data off sample_count channel_stride ts samplerate ch =
     ch\<lparr>actual_signal := actual_signal ch @
          map (\<lambda>k. (ts, data ! (off + k * channel_stride))) [0..<sample_count]\<rparr>"

text \<open>
  Modelled from the spec: \<^verbatim>\<open>Configurable::feed_in_meta\<close> is missing. The model
  records that the configurable was handed the packet.
\<close>

definition Configurable_feed_in_meta :: "sr_meta \<Rightarrow> configurable \<Rightarrow> configurable" where
  "Configurable_feed_in_meta m c = c\<lparr>cfg_meta_received := cfg_meta_received c @ [m]\<rparr>"

subsection \<open>The device\<close>

datatype AquisitionState = Stopped | Running | Paused

text \<open>
  \<open>channel_store\<close> holds the Channel objects made by \<^verbatim>\<open>make_shared\<close>;
  \<open>channel_count\<close> is the next free address. \<open>configurable_map\<close> is a
  \<^verbatim>\<open>std::map\<close> that the code iterates, so it is the list of its entries in iteration
  order; the other maps are only looked up. \<open>samplerate_prop\<close> is \<open>None\<close> for
  \<^verbatim>\<open>nullptr\<close> and otherwise the property's current \<^verbatim>\<open>uint64_value()\<close>.
  \<open>signal_connections\<close> logs the Qt \<^verbatim>\<open>connect\<close> calls. \<open>channel_added_emitted\<close> logs
  the emissions of \<^verbatim>\<open>channel_added\<close>: the channel the signal carries, and the registry
  as a slot called by the emission finds it through the device's accessors. \<open>sr_device_is_open\<close> is the state of the driver's
  handle behind \<^verbatim>\<open>sr_device_\<close>.
\<close>

record emission =
  em_channel :: nat
  em_channel_name_map :: "string \<rightharpoonup> nat"
  em_channel_group_name_map :: "string \<rightharpoonup> nat list"
  em_channel_store :: "nat \<Rightarrow> channel"

record device =
  sr_device :: sr_device
  sr_device_is_open :: bool
  sr_session :: sr_session
  device_open :: bool
  frame_began :: bool
  frame_start_timestamp :: timestamp
  aquisition_state :: AquisitionState
  aquisition_start_timestamp :: timestamp
  aquisition_thread_joinable :: bool
  samplerate_prop :: "64 word option"
  configurable_map :: "(string \<times> configurable) list"
  channel_name_map :: "string \<rightharpoonup> nat"
  channel_group_name_map :: "string \<rightharpoonup> nat list"
  sr_channel_map :: "sr_channel \<rightharpoonup> nat"
  channel_store :: "nat \<Rightarrow> channel"
  channel_count :: nat
  signal_connections :: "nat list"
  channel_added_emitted :: "emission list"

text \<open>
  What the surroundings decide during one call: \<open>now_msecs k\<close> is the result of the
  \<open>k\<close>-th \<^verbatim>\<open>QDateTime::currentMSecsSinceEpoch()\<close> of the call, \<open>alloc_ok\<close> says whether
  \<^verbatim>\<open>new float[...]\<close> succeeds, \<open>sr_open_fails\<close> and \<open>sr_close_fails\<close> whether the
  driver's \<^verbatim>\<open>sr_device_->open()\<close> and \<^verbatim>\<open>sr_device_->close()\<close> throw.
\<close>

record env =
  now_msecs :: "nat \<Rightarrow> int"
  alloc_ok :: bool
  sr_open_fails :: bool
  sr_close_fails :: bool

text \<open>
  How a call can end other than by returning: an exception, or the dereference of a
  null \<^verbatim>\<open>shared_ptr\<close>.
\<close>

datatype failure = BadAlloc | SigrokError | QStringError | NullPointerDereference

text \<open>
  \<^verbatim>\<open>std::map::insert\<close> keeps the old entry when the key is present;
  \<^verbatim>\<open>operator[]\<close> on a \<^verbatim>\<open>map<string, vector<...>>\<close> reads the entry or the empty vector.
\<close>

definition map_insert :: "('k \<rightharpoonup> 'v) \<Rightarrow> 'k \<Rightarrow> 'v \<Rightarrow> ('k \<rightharpoonup> 'v)" where
  "map_insert m k v = (if m k = None then m(k \<mapsto> v) else m)"

definition map_index :: "('k \<rightharpoonup> 'v list) \<Rightarrow> 'k \<Rightarrow> 'v list" where
  "map_index m k = (case m k of None \<Rightarrow> [] | Some v \<Rightarrow> v)"

text \<open>
  \<^verbatim>\<open>BaseDevice::BaseDevice\<close>. The second argument is
  \<^verbatim>\<open>Session::session_start_timestamp\<close>. Modelled from the spec: the initialisers of the
  members the constructor does not set are in the missing header; the state starts as
  Stopped, there is no sample rate property, the registries are empty.
\<close>

definition BaseDevice :: "sr_device \<Rightarrow> timestamp \<Rightarrow> device" where
  "BaseDevice sr_dev session_start_timestamp =
     \<lparr>sr_device = sr_dev,
      sr_device_is_open = False,
      sr_session = \<lparr>sess_devices = [], sess_datafeed_callbacks = 0, sess_stop_requested = False\<rparr>,
      device_open = False,
      frame_began = False,
      frame_start_timestamp = 0,
      aquisition_state = Stopped,
      aquisition_start_timestamp = session_start_timestamp,
      aquisition_thread_joinable = False,
      samplerate_prop = None,
      configurable_map = [],
      channel_name_map = Map.empty,
      channel_group_name_map = Map.empty,
      sr_channel_map = Map.empty,
      channel_store = (\<lambda>_. HardwareChannel \<lparr>sr_channel_id = 0, sr_channel_name = []\<rparr> {} 0),
      channel_count = 0,
      signal_connections = [],
      channel_added_emitted = []\<rparr>"

subsection \<open>Packet handlers of HardwareDevice\<close>

definition wall_clock :: "env \<Rightarrow> nat \<Rightarrow> timestamp" where
  "wall_clock e k = real_of_int (now_msecs e k) / 1000"

definition feed_in_header :: "device \<Rightarrow> device" where
  "feed_in_header d = d"

definition feed_in_trigger :: "device \<Rightarrow> device" where
  "feed_in_trigger d = d"

definition feed_in_logic :: "device \<Rightarrow> sr_logic \<Rightarrow> device" where
  "feed_in_logic d sr_logic = d"

definition feed_in_frame_begin :: "env \<Rightarrow> device \<Rightarrow> device" where
  "feed_in_frame_begin e d = d\<lparr>frame_start_timestamp := wall_clock e 0, frame_began := True\<rparr>"

definition feed_in_frame_end :: "device \<Rightarrow> device" where
  "feed_in_frame_end d = d\<lparr>frame_began := False\<rparr>"

text \<open>
  The loop of \<open>feed_in_meta\<close> over \<open>configurable_map\<close>; \<open>n\<close> is
  \<^verbatim>\<open>configurable_map_.size()\<close>. The first entry that is not skipped gets the packet and
  the loop breaks.
\<close>

fun feed_in_meta_loop ::
  "nat \<Rightarrow> sr_meta \<Rightarrow> (string \<times> configurable) list \<Rightarrow> (string \<times> configurable) list" where
  "feed_in_meta_loop n m [] = []"
| "feed_in_meta_loop n m ((k, c) # rest) =
     (if k = [] \<and> n > 1 then (k, c) # feed_in_meta_loop n m rest
      else (k, Configurable_feed_in_meta m c) # rest)"

definition feed_in_meta :: "device \<Rightarrow> sr_meta \<Rightarrow> device" where
  "feed_in_meta d m =
     d\<lparr>configurable_map :=
         feed_in_meta_loop (length (configurable_map d)) m (configurable_map d)\<rparr>"

text \<open>
  The loop of \<open>feed_in_analog\<close> over the packet's channels. \<open>pos\<close> is how far
  \<^verbatim>\<open>channel_data\<close> has advanced, which is also the number of channels done. The
  \<^verbatim>\<open>assert("Unknown channel")\<close> tests a string literal, which is never null, so it does
  nothing in any build; \<^verbatim>\<open>sr_channel_map_[sr_channel]\<close> on a missing key inserts a null
  pointer, and the call through it is a null dereference. With no frame open the clock
  is read once for every channel.
\<close>

fun feed_in_analog_loop ::
  "env \<Rightarrow> sample_value list \<Rightarrow> nat \<Rightarrow> nat \<Rightarrow> 64 word \<Rightarrow> nat \<Rightarrow> sr_channel list \<Rightarrow> device
     \<Rightarrow> failure + device" where
  "feed_in_analog_loop e data num_samples stride samplerate pos [] d = Inr d"
| "feed_in_analog_loop e data num_samples stride samplerate pos (sr_ch # rest) d =
     (case sr_channel_map d sr_ch of
        None \<Rightarrow> Inl NullPointerDereference
      | Some channel \<Rightarrow>
          let ts = (if frame_began d then frame_start_timestamp d else wall_clock e pos)
          in feed_in_analog_loop e data num_samples stride samplerate (Suc pos) rest
               (d\<lparr>channel_store := (channel_store d)
                    (channel := push_interleaved_samples data pos num_samples stride ts
                       samplerate (channel_store d channel))\<rparr>))"

definition feed_in_analog :: "env \<Rightarrow> device \<Rightarrow> sr_analog \<Rightarrow> failure + device" where
  "feed_in_analog e d sr_an =
     (let num_samples = an_num_samples sr_an in
      if num_samples = 0 then Inr d
      else
        let samplerate = (case samplerate_prop d of None \<Rightarrow> 0 | Some v \<Rightarrow> v);
            sr_channels = an_channels sr_an
        in if \<not> alloc_ok e then Inl BadAlloc
           else feed_in_analog_loop e (an_data sr_an) num_samples (length sr_channels)
                  samplerate 0 sr_channels d)"

subsection \<open>Packet dispatch of BaseDevice\<close>

text \<open>
  \<open>data_feed_in\<close>: the two \<^verbatim>\<open>assert\<close>s hold because both arguments are given. A
  \<^verbatim>\<open>bad_alloc\<close> from the analog handler is caught and the packet is dropped; the case
  of \<open>SR_DF_END\<close> takes and releases the lock and does nothing else.
\<close>

definition data_feed_in :: "env \<Rightarrow> device \<Rightarrow> sr_device \<Rightarrow> sr_packet \<Rightarrow> failure + device" where
  "data_feed_in e d sr_dev sr_pkt =
     (if sr_dev \<noteq> sr_device d then Inr d
      else case sr_pkt of
        SR_DF_HEADER \<Rightarrow> Inr (feed_in_header d)
      | SR_DF_META m \<Rightarrow> Inr (feed_in_meta d m)
      | SR_DF_TRIGGER \<Rightarrow> Inr (feed_in_trigger d)
      | SR_DF_LOGIC l \<Rightarrow>
          if aquisition_state d \<noteq> Running then Inr d else Inr (feed_in_logic d l)
      | SR_DF_ANALOG a \<Rightarrow>
          if aquisition_state d \<noteq> Running then Inr d
          else (case feed_in_analog e d a of
                  Inl BadAlloc \<Rightarrow> Inr d
                | Inl f \<Rightarrow> Inl f
                | Inr d' \<Rightarrow> Inr d')
      | SR_DF_FRAME_BEGIN \<Rightarrow> Inr (feed_in_frame_begin e d)
      | SR_DF_FRAME_END \<Rightarrow> Inr (feed_in_frame_end d)
      | SR_DF_END \<Rightarrow> Inr d
      | SR_DF_OTHER n \<Rightarrow> Inr d)"

text \<open>
  The packets of one acquisition, dispatched one after the other on the acquisition
  thread; each comes with the surroundings of its own call.
\<close>

fun dispatch_all :: "device \<Rightarrow> (env \<times> sr_packet) list \<Rightarrow> failure + device" where
  "dispatch_all d [] = Inr d"
| "dispatch_all d ((e, p) # ps) =
     (case data_feed_in e d (sr_device d) p of
        Inl f \<Rightarrow> Inl f
      | Inr d' \<Rightarrow> dispatch_all d' ps)"

subsection \<open>Channel registry of BaseDevice\<close>

text \<open>
  \<^verbatim>\<open>Q_EMIT channel_added(channel)\<close> in the state \<open>d\<close>: what the emission hands to its
  slots.
\<close>

definition emission_of :: "device \<Rightarrow> nat \<Rightarrow> emission" where
  "emission_of d channel =
     \<lparr>em_channel = channel,
      em_channel_name_map = channel_name_map d,
      em_channel_group_name_map = channel_group_name_map d,
      em_channel_store = channel_store d\<rparr>"

text \<open>
  \<open>add_channel\<close>: the argument \<open>channel\<close> is the address of the Channel object. The
  emission of \<^verbatim>\<open>channel_added\<close> is the last statement and is under no condition.
\<close>

definition add_channel :: "device \<Rightarrow> nat \<Rightarrow> string \<Rightarrow> device" where
  "add_channel d channel channel_group_name =
     (let name = ch_name (channel_store d channel);
          d1 = (if channel_name_map d name = None
                then d\<lparr>signal_connections := signal_connections d @ [channel],
                       channel_name_map := map_insert (channel_name_map d) name channel\<rparr>
                else d);
          d2 = (if channel_group_name_map d1 channel_group_name = None
                then d1\<lparr>channel_group_name_map :=
                         map_insert (channel_group_name_map d1) channel_group_name []\<rparr>
                else d1);
          d3 = d2\<lparr>channel_group_name_map := (channel_group_name_map d2)
                     (channel_group_name \<mapsto>
                        map_index (channel_group_name_map d2) channel_group_name @ [channel])\<rparr>;
          d4 = (if channel_group_name \<notin> channel_group_names (channel_store d3 channel)
                then d3\<lparr>channel_store := (channel_store d3)
                         (channel := add_channel_group_name channel_group_name
                                       (channel_store d3 channel))\<rparr>
                else d3)
      in d4\<lparr>channel_added_emitted := channel_added_emitted d4 @ [emission_of d4 channel]\<rparr>)"

text \<open>
  \<open>add_sr_channel\<close> returns the channel's address and the device. A new object gets
  the next free address of the store.
\<close>

definition add_sr_channel :: "device \<Rightarrow> sr_channel \<Rightarrow> string \<Rightarrow> nat \<times> device" where
  "add_sr_channel d sr_ch channel_group_name =
     (case channel_name_map d (sr_channel_name sr_ch) of
        Some channel \<Rightarrow> (channel, add_channel d channel channel_group_name)
      | None \<Rightarrow>
          let channel = channel_count d;
              d1 = d\<lparr>channel_store := (channel_store d)
                        (channel := HardwareChannel sr_ch {channel_group_name}
                                      (aquisition_start_timestamp d)),
                     channel_count := Suc channel,
                     sr_channel_map := map_insert (sr_channel_map d) sr_ch channel\<rparr>
          in (channel, add_channel d1 channel channel_group_name))"

text \<open>
  \<open>init_channels\<close> of HardwareDevice: the inner and the outer loop over the channel
  groups, then the loop over the device's channels that no group has brought in.
\<close>

fun init_group_channels :: "device \<Rightarrow> string \<Rightarrow> sr_channel list \<Rightarrow> device" where
  "init_group_channels d g [] = d"
| "init_group_channels d g (sr_ch # rest) =
     init_group_channels (snd (add_sr_channel d sr_ch g)) g rest"

fun init_channel_groups :: "device \<Rightarrow> (string \<times> sr_channel_group) list \<Rightarrow> device" where
  "init_channel_groups d [] = d"
| "init_channel_groups d ((k, sr_cg) # rest) =
     init_channel_groups (init_group_channels d (sr_cg_name sr_cg) (sr_cg_channels sr_cg)) rest"

fun init_ungrouped_channels :: "device \<Rightarrow> sr_channel list \<Rightarrow> device" where
  "init_ungrouped_channels d [] = d"
| "init_ungrouped_channels d (sr_ch # rest) =
     (if sr_channel_map d sr_ch \<noteq> None then init_ungrouped_channels d rest
      else init_ungrouped_channels (snd (add_sr_channel d sr_ch [])) rest)"

definition init_channels :: "device \<Rightarrow> device" where
  "init_channels d =
     (let sr_channel_groups = sr_dev_channel_groups (sr_device d);
          d1 = (if sr_channel_groups \<noteq> [] then init_channel_groups d sr_channel_groups else d)
      in init_ungrouped_channels d1 (sr_dev_channels (sr_device d1)))"

subsection \<open>Lifecycle of BaseDevice\<close>

text \<open>
  The driver's \<^verbatim>\<open>sr_device_->close()\<close> and \<^verbatim>\<open>sr_device_->open()\<close>: each throws or
  changes the handle's state.
\<close>

definition sr_device_close :: "env \<Rightarrow> device \<Rightarrow> failure + device" where
  "sr_device_close e d =
     (if sr_close_fails e then Inl SigrokError else Inr (d\<lparr>sr_device_is_open := False\<rparr>))"

definition sr_device_open :: "env \<Rightarrow> device \<Rightarrow> failure + device" where
  "sr_device_open e d =
     (if sr_open_fails e then Inl SigrokError else Inr (d\<lparr>sr_device_is_open := True\<rparr>))"

text \<open>
  \<open>close\<close>: the session is stopped, the thread joined, the callbacks removed, and the
  driver's close runs inside \<^verbatim>\<open>try { ... } catch (...) {}\<close>. The calls on the session
  are the driver library's; the source handles no failure of theirs and the model gives
  them none.
\<close>

definition close :: "env \<Rightarrow> device \<Rightarrow> failure + device" where
  "close e d =
     (if \<not> device_open d then Inr d
      else
        let d1 = d\<lparr>sr_session := (sr_session d)\<lparr>sess_stop_requested := True\<rparr>\<rparr>;
            d2 = (if aquisition_thread_joinable d1
                  then d1\<lparr>aquisition_thread_joinable := False\<rparr> else d1);
            d3 = d2\<lparr>sr_session := (sr_session d2)\<lparr>sess_datafeed_callbacks := 0\<rparr>,
                    aquisition_state := Stopped\<rparr>;
            d4 = (case sr_device_close e d3 of Inl f \<Rightarrow> d3 | Inr d' \<Rightarrow> d');
            d5 = d4\<lparr>sr_session := (sr_session d4)\<lparr>sess_devices := []\<rparr>\<rparr>
        in Inr (d5\<lparr>device_open := False\<rparr>))"

text \<open>
  \<open>open\<close> of BaseDevice (the name \<open>open\<close> is taken in HOL). A failure of the
  driver's open is rethrown as a \<^verbatim>\<open>QString\<close>.
\<close>

definition open_device :: "env \<Rightarrow> device \<Rightarrow> failure + device" where
  "open_device e d =
     (case (if device_open d then close e d else Inr d) of
        Inl f \<Rightarrow> Inl f
      | Inr d0 \<Rightarrow>
          (case sr_device_open e d0 of
             Inl f \<Rightarrow> Inl QStringError
           | Inr d1 \<Rightarrow>
               let d2 = d1\<lparr>sr_session := (sr_session d1)
                            \<lparr>sess_devices := sess_devices (sr_session d1) @ [sr_device d1]\<rparr>\<rparr>;
                   d3 = init_channels d2;
                   d4 = d3\<lparr>sr_session := (sr_session d3)
                            \<lparr>sess_datafeed_callbacks :=
                               Suc (sess_datafeed_callbacks (sr_session d3))\<rparr>,
                           aquisition_thread_joinable := True,
                           aquisition_state := Running\<rparr>
               in Inr (d4\<lparr>device_open := True\<rparr>)))"

definition start_aquisition :: "device \<Rightarrow> device" where
  "start_aquisition d = d\<lparr>aquisition_state := Running\<rparr>"

definition pause_aquisition :: "device \<Rightarrow> device" where
  "pause_aquisition d = d\<lparr>aquisition_state := Paused\<rparr>"

subsection \<open>Notions used in the statements\<close>

text \<open>The timestamp \<open>feed_in_analog\<close> hands to the push for the channel at position \<open>pos\<close>.\<close>

definition analog_ts :: "env \<Rightarrow> device \<Rightarrow> nat \<Rightarrow> timestamp" where
  "analog_ts e d pos = (if frame_began d then frame_start_timestamp d else wall_clock e pos)"

text \<open>
  Every channel of the packet has an entry in \<open>sr_channel_map\<close>, and no two of them lead to
  one Channel object.
\<close>

definition analog_channels_registered :: "device \<Rightarrow> sr_analog \<Rightarrow> bool" where
  "analog_channels_registered d a \<longleftrightarrow>
     (\<forall>c\<in>set (an_channels a). sr_channel_map d c \<noteq> None) \<and>
     distinct (map (sr_channel_map d) (an_channels a))"

text \<open>
  The frame a sequence of dispatched packets leaves open, in the spec's words: a frame
  runs from a FrameBegin packet to the next FrameEnd packet and has the timestamp of the
  clock reading at the receipt of its FrameBegin. \<open>cur\<close> is the frame that was open
  before the sequence, \<open>None\<close> for none. \<open>current_frame\<close> reads the same from the
  device's two members.
\<close>

fun open_frame_start :: "timestamp option \<Rightarrow> (env \<times> sr_packet) list \<Rightarrow> timestamp option" where
  "open_frame_start cur [] = cur"
| "open_frame_start cur ((e, SR_DF_FRAME_BEGIN) # ps) = open_frame_start (Some (wall_clock e 0)) ps"
| "open_frame_start cur ((e, SR_DF_FRAME_END) # ps) = open_frame_start None ps"
| "open_frame_start cur ((e, p) # ps) = open_frame_start cur ps"

definition current_frame :: "device \<Rightarrow> timestamp option" where
  "current_frame d = (if frame_began d then Some (frame_start_timestamp d) else None)"

text \<open>The samples channel \<open>p\<close> holds in \<open>d'\<close> beyond those it holds in \<open>d\<close>.\<close>

definition appended :: "device \<Rightarrow> device \<Rightarrow> nat \<Rightarrow> sample list" where
  "appended d d' p =
     drop (length (actual_signal (channel_store d p))) (actual_signal (channel_store d' p))"

text \<open>
  The recipient of a Meta packet in the spec's words: the first channel-group
  configurable found if there is one, and the device-level configurable (the empty key) only
  when it is the sole configurable. \<open>deliver_meta\<close> hands the packet to the entry with
  that key; \<open>meta_recipients\<close> lists the keys of the entries that differ between two
  states of the map.
\<close>

definition spec_meta_target :: "(string \<times> configurable) list \<Rightarrow> string option" where
  "spec_meta_target cm =
     (case find (\<lambda>k. k \<noteq> []) (map fst cm) of
        Some g \<Rightarrow> Some g
      | None \<Rightarrow> if length cm = 1 then Some [] else None)"

definition deliver_meta ::
  "sr_meta \<Rightarrow> string option \<Rightarrow> (string \<times> configurable) list \<Rightarrow> (string \<times> configurable) list" where
  "deliver_meta m target cm =
     map (\<lambda>(k, c). (k, if Some k = target then Configurable_feed_in_meta m c else c)) cm"

definition meta_recipients ::
  "(string \<times> configurable) list \<Rightarrow> (string \<times> configurable) list \<Rightarrow> string list" where
  "meta_recipients before after =
     map (fst \<circ> fst) (filter (\<lambda>(old, new). snd new \<noteq> snd old) (zip before after))"

text \<open>
  The registry is consistent: every entry of \<open>channel_name_map\<close> leads to an object of the
  store that carries that name, and every object of the store is entered under its name.
  So no two objects share a name.
\<close>

definition registry_inv :: "device \<Rightarrow> bool" where
  "registry_inv d \<longleftrightarrow>
     (\<forall>n p. channel_name_map d n = Some p \<longrightarrow>
        p < channel_count d \<and> ch_name (channel_store d p) = n) \<and>
     (\<forall>p<channel_count d. channel_name_map d (ch_name (channel_store d p)) = Some p)"

text \<open>The Channel objects of the device that carry the name \<open>n\<close>.\<close>

definition channels_named :: "device \<Rightarrow> string \<Rightarrow> nat list" where
  "channels_named d n = filter (\<lambda>p. ch_name (channel_store d p) = n) [0..<channel_count d]"

text \<open>
  Channel \<open>p\<close> is entered under the name \<open>n\<close>, is in the group map's vector for \<open>g\<close> and
  holds the membership of \<open>g\<close>. \<open>registry_grows\<close>: nothing of that kind is lost from
  \<open>d\<close> to \<open>d'\<close>.
\<close>

definition registered :: "device \<Rightarrow> string \<Rightarrow> string \<Rightarrow> nat \<Rightarrow> bool" where
  "registered d n g p \<longleftrightarrow>
     channel_name_map d n = Some p \<and>
     p \<in> set (map_index (channel_group_name_map d) g) \<and>
     g \<in> channel_group_names (channel_store d p)"

definition registry_grows :: "device \<Rightarrow> device \<Rightarrow> bool" where
  "registry_grows d d' \<longleftrightarrow>
     sr_device d' = sr_device d \<and> channel_count d \<le> channel_count d' \<and>
     (\<forall>n p. channel_name_map d n = Some p \<longrightarrow> channel_name_map d' n = Some p) \<and>
     (\<forall>g. set (map_index (channel_group_name_map d) g)
            \<subseteq> set (map_index (channel_group_name_map d') g)) \<and>
     (\<forall>p<channel_count d. channel_group_names (channel_store d p)
            \<subseteq> channel_group_names (channel_store d' p))"

text \<open>
  The calls of \<open>add_sr_channel\<close> that \<open>init_channels\<close> makes, in their order, each with
  the driver channel and the group name it passes: every channel of every group with the
  group's name, then the channels of the device's list that are not skipped
  (\<open>ungrouped_added\<close>) with the empty name.
\<close>

fun ungrouped_added :: "device \<Rightarrow> sr_channel list \<Rightarrow> sr_channel list" where
  "ungrouped_added d [] = []"
| "ungrouped_added d (sr_ch # rest) =
     (if sr_channel_map d sr_ch \<noteq> None then ungrouped_added d rest
      else sr_ch # ungrouped_added (snd (add_sr_channel d sr_ch [])) rest)"

definition discoveries :: "device \<Rightarrow> (sr_channel \<times> string) list" where
  "discoveries d =
     (let sr_channel_groups = sr_dev_channel_groups (sr_device d);
          d1 = (if sr_channel_groups \<noteq> [] then init_channel_groups d sr_channel_groups else d)
      in concat (map (\<lambda>(k, sr_cg). map (\<lambda>c. (c, sr_cg_name sr_cg)) (sr_cg_channels sr_cg))
                  sr_channel_groups) @
         map (\<lambda>c. (c, [])) (ungrouped_added d1 (sr_dev_channels (sr_device d1))))"

text \<open>
  At the moment of the emission \<open>em\<close> its channel is fully registered under the name
  \<open>n\<close> and the group \<open>g\<close>: the object carries the name, the name map leads to it, the
  group's vector holds it and it holds the membership. \<open>announces d' (c, g) em\<close>: the
  emission is that of the call for \<open>c\<close> and \<open>g\<close>, and its channel is the one that \<open>d'\<close>
  has under the name of \<open>c\<close>.
\<close>

definition emitted_registered :: "emission \<Rightarrow> string \<Rightarrow> string \<Rightarrow> bool" where
  "emitted_registered em n g \<longleftrightarrow>
     ch_name (em_channel_store em (em_channel em)) = n \<and>
     em_channel_name_map em n = Some (em_channel em) \<and>
     em_channel em \<in> set (map_index (em_channel_group_name_map em) g) \<and>
     g \<in> channel_group_names (em_channel_store em (em_channel em))"

definition announces :: "device \<Rightarrow> sr_channel \<times> string \<Rightarrow> emission \<Rightarrow> bool" where
  "announces d' cg em \<longleftrightarrow>
     emitted_registered em (sr_channel_name (fst cg)) (snd cg) \<and>
     channel_name_map d' (sr_channel_name (fst cg)) = Some (em_channel em)"

subsection \<open>Example devices and packets\<close>

text \<open>
  A device with two analog channels and no channel group, opened; an analog packet of
  two channels with five samples each.
\<close>

definition demo_ch_A :: sr_channel where
  "demo_ch_A = \<lparr>sr_channel_id = 1, sr_channel_name = ''A1''\<rparr>"

definition demo_ch_B :: sr_channel where
  "demo_ch_B = \<lparr>sr_channel_id = 2, sr_channel_name = ''A2''\<rparr>"

definition demo_sr_device :: sr_device where
  "demo_sr_device =
     \<lparr>sr_dev_id = 1, sr_dev_channel_groups = [], sr_dev_channels = [demo_ch_A, demo_ch_B]\<rparr>"

definition demo_env :: "int \<Rightarrow> env" where
  "demo_env t = \<lparr>now_msecs = (\<lambda>k. t + int k), alloc_ok = True, sr_open_fails = False,
     sr_close_fails = True\<rparr>"

definition demo_device :: device where
  "demo_device =
     (case open_device (demo_env 1000) (BaseDevice demo_sr_device 0) of
        Inr d \<Rightarrow> d | Inl f \<Rightarrow> BaseDevice demo_sr_device 0)"

definition demo_analog :: sr_analog where
  "demo_analog = \<lparr>an_num_samples = 5, an_channels = [demo_ch_A, demo_ch_B],
     an_data = [10, 20, 11, 21, 12, 22, 13, 23, 14, 24]\<rparr>"

text \<open>An analog packet without samples.\<close>

definition empty_analog :: sr_analog where
  "empty_analog = \<lparr>an_num_samples = 0, an_channels = [demo_ch_A], an_data = []\<rparr>"

text \<open>The example device inside a frame that began at 5000 ms.\<close>

definition framed_demo_device :: device where
  "framed_demo_device = demo_device\<lparr>frame_start_timestamp := 5, frame_began := True\<rparr>"

text \<open>The example device after that frame has ended.\<close>

definition closed_frame_demo_device :: device where
  "closed_frame_demo_device = demo_device\<lparr>frame_start_timestamp := 5, frame_began := False\<rparr>"

text \<open>A driver channel the example device has not registered, and a packet that names it.\<close>

definition unknown_ch :: sr_channel where
  "unknown_ch = \<lparr>sr_channel_id = 9, sr_channel_name = ''X''\<rparr>"

definition stray_analog :: sr_analog where
  "stray_analog = \<lparr>an_num_samples = 1, an_channels = [demo_ch_A, unknown_ch], an_data = [1, 2]\<rparr>"

text \<open>The example device with a device-level and two channel-group configurables.\<close>

definition cfg_device :: device where
  "cfg_device = demo_device\<lparr>configurable_map :=
     [([], \<lparr>cfg_index = 2, cfg_meta_received = []\<rparr>),
      (''CG1'', \<lparr>cfg_index = 0, cfg_meta_received = []\<rparr>),
      (''CG2'', \<lparr>cfg_index = 1, cfg_meta_received = []\<rparr>)]\<rparr>"

definition demo_meta :: sr_meta where
  "demo_meta = [(''samplerate'', 10)]"

text \<open>A device that reports the channel CH1 in the two groups G1 and G2.\<close>

definition demo_ch1 :: sr_channel where
  "demo_ch1 = \<lparr>sr_channel_id = 11, sr_channel_name = ''CH1''\<rparr>"

definition two_group_sr_device :: sr_device where
  "two_group_sr_device =
     \<lparr>sr_dev_id = 2,
      sr_dev_channel_groups =
        [(''G1'', \<lparr>sr_cg_name = ''G1'', sr_cg_channels = [demo_ch1]\<rparr>),
         (''G2'', \<lparr>sr_cg_name = ''G2'', sr_cg_channels = [demo_ch1]\<rparr>)],
      sr_dev_channels = [demo_ch1]\<rparr>"

definition two_group_device :: device where
  "two_group_device = init_channels (BaseDevice two_group_sr_device 0)"

section \<open>Properties\<close>

subsection \<open>Analog ingestion\<close>

lemma loop_frame:
  "feed_in_analog_loop e data n st sr pos cs d = Inr d' \<Longrightarrow>
     d' = d\<lparr>channel_store := channel_store d'\<rparr>"
proof (induction cs arbitrary: pos d)
  case Nil
  then show ?case by simp
next
  case (Cons c cs)
  from Cons.prems obtain q where q: "sr_channel_map d c = Some q"
    by (cases "sr_channel_map d c") auto
  let ?d1 = "d\<lparr>channel_store := (channel_store d)
        (q := push_interleaved_samples data pos n st
           (if frame_began d then frame_start_timestamp d else wall_clock e pos) sr (channel_store d q))\<rparr>"
  from Cons.prems q have "feed_in_analog_loop e data n st sr (Suc pos) cs ?d1 = Inr d'"
    by (simp add: Let_def)
  from Cons.IH[OF this] show ?case by simp
qed

lemma loop_succeeds:
  "\<forall>c\<in>set cs. sr_channel_map d c \<noteq> None \<Longrightarrow>
     \<exists>d'. feed_in_analog_loop e data n st sr pos cs d = Inr d'"
proof (induction cs arbitrary: pos d)
  case Nil
  then show ?case by simp
next
  case (Cons c cs)
  then obtain q where q: "sr_channel_map d c = Some q" by auto
  show ?case using Cons.prems q
    by (simp add: Let_def Cons.IH)
qed

lemma loop_untouched:
  "feed_in_analog_loop e data n st sr pos cs d = Inr d' \<Longrightarrow>
   Some p \<notin> sr_channel_map d ` set cs \<Longrightarrow> channel_store d' p = channel_store d p"
proof (induction cs arbitrary: pos d)
  case Nil
  then show ?case by simp
next
  case (Cons c cs)
  from Cons.prems obtain q where q: "sr_channel_map d c = Some q"
    by (cases "sr_channel_map d c") auto
  with Cons.prems have pq: "p \<noteq> q" by auto
  let ?d1 = "d\<lparr>channel_store := (channel_store d)
        (q := push_interleaved_samples data pos n st
           (if frame_began d then frame_start_timestamp d else wall_clock e pos) sr (channel_store d q))\<rparr>"
  from Cons.prems q have run: "feed_in_analog_loop e data n st sr (Suc pos) cs ?d1 = Inr d'"
    by (simp add: Let_def)
  have "Some p \<notin> sr_channel_map ?d1 ` set cs" using Cons.prems by simp
  from Cons.IH[OF run this] pq show ?case by simp
qed

lemma loop_touched:
  "feed_in_analog_loop e data n st sr pos cs d = Inr d' \<Longrightarrow>
   distinct (map (sr_channel_map d) cs) \<Longrightarrow> j < length cs \<Longrightarrow>
   sr_channel_map d (cs ! j) = Some p \<Longrightarrow>
   channel_store d' p =
     push_interleaved_samples data (pos + j) n st (analog_ts e d (pos + j)) sr (channel_store d p)"
proof (induction cs arbitrary: pos d j)
  case Nil
  then show ?case by simp
next
  case (Cons c cs)
  from Cons.prems obtain q where q: "sr_channel_map d c = Some q"
    by (cases "sr_channel_map d c") auto
  let ?d1 = "d\<lparr>channel_store := (channel_store d)
        (q := push_interleaved_samples data pos n st
           (if frame_began d then frame_start_timestamp d else wall_clock e pos) sr (channel_store d q))\<rparr>"
  from Cons.prems q have run: "feed_in_analog_loop e data n st sr (Suc pos) cs ?d1 = Inr d'"
    by (simp add: Let_def)
  show ?case
  proof (cases j)
    case 0
    with Cons.prems q have pq: "p = q" by simp
    have "Some p \<notin> sr_channel_map ?d1 ` set cs" using Cons.prems(2) q pq by auto
    from loop_untouched[OF run this] pq 0 show ?thesis by (simp add: analog_ts_def)
  next
    case (Suc j')
    with Cons.prems have j': "j' < length cs" and at: "sr_channel_map d (cs ! j') = Some p" by auto
    then have "Some p \<in> set (map (sr_channel_map d) cs)"
      by (metis length_map nth_map nth_mem)
    with Cons.prems(2) q have pq: "p \<noteq> q" by auto
    have dist: "distinct (map (sr_channel_map ?d1) cs)" using Cons.prems(2) by simp
    have at1: "sr_channel_map ?d1 (cs ! j') = Some p" using at by simp
    from Cons.IH[OF run dist j' at1] pq Suc show ?thesis by (simp add: analog_ts_def)
  qed
qed

lemma loop_appends:
  "feed_in_analog_loop e data n st sr pos cs d = Inr d' \<Longrightarrow>
   \<exists>new. actual_signal (channel_store d' p) = actual_signal (channel_store d p) @ new \<and>
     (\<forall>s\<in>set new. \<exists>k<length cs.
        sr_channel_map d (cs ! k) = Some p \<and> fst s = analog_ts e d (pos + k))"
proof (induction cs arbitrary: pos d)
  case Nil
  then show ?case by simp
next
  case (Cons c cs)
  from Cons.prems obtain q where q: "sr_channel_map d c = Some q"
    by (cases "sr_channel_map d c") auto
  let ?d1 = "d\<lparr>channel_store := (channel_store d)
        (q := push_interleaved_samples data pos n st
           (if frame_began d then frame_start_timestamp d else wall_clock e pos) sr (channel_store d q))\<rparr>"
  from Cons.prems q have run: "feed_in_analog_loop e data n st sr (Suc pos) cs ?d1 = Inr d'"
    by (simp add: Let_def)
  from Cons.IH[OF run] obtain new where
    new: "actual_signal (channel_store d' p) = actual_signal (channel_store ?d1 p) @ new"
    and ts: "\<forall>s\<in>set new. \<exists>k<length cs.
        sr_channel_map ?d1 (cs ! k) = Some p \<and> fst s = analog_ts e ?d1 (Suc pos + k)"
    by blast
  have ts': "\<forall>s\<in>set new. \<exists>k<length (c # cs).
        sr_channel_map d ((c # cs) ! k) = Some p \<and> fst s = analog_ts e d (pos + k)"
  proof
    fix s assume "s \<in> set new"
    with ts obtain k where "k < length cs" "sr_channel_map ?d1 (cs ! k) = Some p"
      "fst s = analog_ts e ?d1 (Suc pos + k)" by blast
    then have "Suc k < length (c # cs)" "sr_channel_map d ((c # cs) ! Suc k) = Some p"
      "fst s = analog_ts e d (pos + Suc k)"
      by (simp_all add: analog_ts_def)
    then show "\<exists>k<length (c # cs).
        sr_channel_map d ((c # cs) ! k) = Some p \<and> fst s = analog_ts e d (pos + k)" by blast
  qed
  show ?case
  proof (cases "p = q")
    case True
    let ?mid = "map (\<lambda>k. (analog_ts e d pos, data ! (pos + k * st))) [0..<n]"
    have "actual_signal (channel_store d' p) = actual_signal (channel_store d p) @ (?mid @ new)"
      using new True by (simp add: push_interleaved_samples_def analog_ts_def)
    moreover have "\<forall>s\<in>set ?mid. \<exists>k<length (c # cs).
        sr_channel_map d ((c # cs) ! k) = Some p \<and> fst s = analog_ts e d (pos + k)"
    proof
      fix s assume "s \<in> set ?mid"
      then have "fst s = analog_ts e d (pos + 0)" by auto
      moreover have "0 < length (c # cs)" "sr_channel_map d ((c # cs) ! 0) = Some p"
        using q True by simp_all
      ultimately show "\<exists>k<length (c # cs).
        sr_channel_map d ((c # cs) ! k) = Some p \<and> fst s = analog_ts e d (pos + k)" by blast
    qed
    ultimately show ?thesis using ts' by (intro exI[of _ "?mid @ new"]) auto
  next
    case False
    with new have "actual_signal (channel_store d' p) = actual_signal (channel_store d p) @ new"
      by simp
    with ts' show ?thesis by blast
  qed
qed

lemma analog_not_running:
  "aquisition_state d \<noteq> Running \<Longrightarrow> data_feed_in e d sr_dev (SR_DF_ANALOG a) = Inr d"
  by (simp add: data_feed_in_def)

lemma analog_running:
  "aquisition_state d = Running \<Longrightarrow> alloc_ok e \<Longrightarrow> an_num_samples a \<noteq> 0 \<Longrightarrow>
   data_feed_in e d (sr_device d) (SR_DF_ANALOG a) =
     (case feed_in_analog_loop e (an_data a) (an_num_samples a) (length (an_channels a))
             (case samplerate_prop d of None \<Rightarrow> 0 | Some v \<Rightarrow> v) 0 (an_channels a) d of
        Inl BadAlloc \<Rightarrow> Inr d | Inl f \<Rightarrow> Inl f | Inr d' \<Rightarrow> Inr d')"
  by (simp add: data_feed_in_def feed_in_analog_def Let_def)

lemma analog_empty:
  "an_num_samples a = 0 \<Longrightarrow> data_feed_in e d sr_dev (SR_DF_ANALOG a) = Inr d"
  by (simp add: data_feed_in_def feed_in_analog_def)

lemma analog_result:
  assumes "data_feed_in e d (sr_device d) (SR_DF_ANALOG a) = Inr d'"
  shows "d' = d \<or> feed_in_analog_loop e (an_data a) (an_num_samples a) (length (an_channels a))
             (case samplerate_prop d of None \<Rightarrow> 0 | Some v \<Rightarrow> v) 0 (an_channels a) d = Inr d'"
  using assms
  by (auto simp: data_feed_in_def feed_in_analog_def Let_def
           split: if_splits sum.splits failure.splits)

lemma analog_registered_result:
  assumes "aquisition_state d = Running" "alloc_ok e" "analog_channels_registered d a"
  shows "\<exists>d'. data_feed_in e d (sr_device d) (SR_DF_ANALOG a) = Inr d' \<and>
     (\<forall>i<length (an_channels a). \<forall>p. sr_channel_map d (an_channels a ! i) = Some p \<longrightarrow>
        channel_store d' p = push_interleaved_samples (an_data a) i (an_num_samples a)
           (length (an_channels a)) (analog_ts e d i)
           (case samplerate_prop d of None \<Rightarrow> 0 | Some v \<Rightarrow> v) (channel_store d p)) \<and>
     (\<forall>p. Some p \<notin> sr_channel_map d ` set (an_channels a) \<longrightarrow>
        channel_store d' p = channel_store d p)"
proof (cases "an_num_samples a = 0")
  case True
  then have "data_feed_in e d (sr_device d) (SR_DF_ANALOG a) = Inr d"
    by (rule analog_empty)
  then show ?thesis using True by (simp add: push_interleaved_samples_def)
next
  case False
  let ?sr = "case samplerate_prop d of None \<Rightarrow> 0 | Some v \<Rightarrow> v"
  from assms(3) have reg: "\<forall>c\<in>set (an_channels a). sr_channel_map d c \<noteq> None"
    and dist: "distinct (map (sr_channel_map d) (an_channels a))"
    by (simp_all add: analog_channels_registered_def)
  from loop_succeeds[OF reg] obtain d' where
    run: "feed_in_analog_loop e (an_data a) (an_num_samples a) (length (an_channels a)) ?sr 0
            (an_channels a) d = Inr d'"
    by blast
  have res: "data_feed_in e d (sr_device d) (SR_DF_ANALOG a) = Inr d'"
    using analog_running[OF assms(1,2) False] run by simp
  have "\<forall>i<length (an_channels a). \<forall>p. sr_channel_map d (an_channels a ! i) = Some p \<longrightarrow>
        channel_store d' p = push_interleaved_samples (an_data a) i (an_num_samples a)
           (length (an_channels a)) (analog_ts e d i) ?sr (channel_store d p)"
    using loop_touched[OF run dist] by simp
  moreover have "\<forall>p. Some p \<notin> sr_channel_map d ` set (an_channels a) \<longrightarrow>
        channel_store d' p = channel_store d p"
    using loop_untouched[OF run] by blast
  ultimately show ?thesis using res by blast
qed

text \<open>
  Claim C1. An analog packet dispatched while the acquisition state is not Running
  (Stopped or Paused) leaves the device as it is: no Signal gets a sample. While Running,
  for a packet of this device whose channels are all registered, each to a Channel of its
  own, and whose buffer can be allocated, the dispatch returns and the actual Signal of
  every channel of the packet is longer by exactly \<open>num_samples\<close> entries.
\<close>

theorem state_gated_ingestion:
  "(aquisition_state d \<noteq> Running \<longrightarrow> data_feed_in e d sr_dev (SR_DF_ANALOG a) = Inr d) \<and>
   (aquisition_state d = Running \<and> sr_dev = sr_device d \<and> alloc_ok e \<and>
    analog_channels_registered d a \<longrightarrow>
      (\<exists>d'. data_feed_in e d sr_dev (SR_DF_ANALOG a) = Inr d' \<and>
         (\<forall>c\<in>set (an_channels a). \<exists>p. sr_channel_map d c = Some p \<and>
            length (actual_signal (channel_store d' p)) =
              length (actual_signal (channel_store d p)) + an_num_samples a)))"
proof (intro conjI impI)
  assume "aquisition_state d \<noteq> Running"
  then show "data_feed_in e d sr_dev (SR_DF_ANALOG a) = Inr d" by (rule analog_not_running)
next
  assume h: "aquisition_state d = Running \<and> sr_dev = sr_device d \<and> alloc_ok e \<and>
    analog_channels_registered d a"
  then have reg: "\<forall>c\<in>set (an_channels a). sr_channel_map d c \<noteq> None"
    by (simp add: analog_channels_registered_def)
  from h analog_registered_result[of d e a] obtain d' where
    res: "data_feed_in e d sr_dev (SR_DF_ANALOG a) = Inr d'"
    and st: "\<forall>i<length (an_channels a). \<forall>p. sr_channel_map d (an_channels a ! i) = Some p \<longrightarrow>
        channel_store d' p = push_interleaved_samples (an_data a) i (an_num_samples a)
           (length (an_channels a)) (analog_ts e d i)
           (case samplerate_prop d of None \<Rightarrow> 0 | Some v \<Rightarrow> v) (channel_store d p)"
    by blast
  have "\<forall>c\<in>set (an_channels a). \<exists>p. sr_channel_map d c = Some p \<and>
            length (actual_signal (channel_store d' p)) =
              length (actual_signal (channel_store d p)) + an_num_samples a"
  proof
    fix c assume c: "c \<in> set (an_channels a)"
    then obtain i where i: "i < length (an_channels a)" "an_channels a ! i = c"
      by (auto simp: in_set_conv_nth)
    from reg c obtain p where p: "sr_channel_map d c = Some p" by auto
    with st i have "channel_store d' p = push_interleaved_samples (an_data a) i (an_num_samples a)
           (length (an_channels a)) (analog_ts e d i)
           (case samplerate_prop d of None \<Rightarrow> 0 | Some v \<Rightarrow> v) (channel_store d p)"
      by blast
    then have "length (actual_signal (channel_store d' p)) =
              length (actual_signal (channel_store d p)) + an_num_samples a"
      by (simp add: push_interleaved_samples_def)
    with p show "\<exists>p. sr_channel_map d c = Some p \<and>
            length (actual_signal (channel_store d' p)) =
              length (actual_signal (channel_store d p)) + an_num_samples a"
      by blast
  qed
  with res show "\<exists>d'. data_feed_in e d sr_dev (SR_DF_ANALOG a) = Inr d' \<and>
         (\<forall>c\<in>set (an_channels a). \<exists>p. sr_channel_map d c = Some p \<and>
            length (actual_signal (channel_store d' p)) =
              length (actual_signal (channel_store d p)) + an_num_samples a)"
    by blast
qed

lemma offset_in_range:
  assumes "i < C" "k < N"
  shows "i + k * C < N * (C::nat)"
proof -
  have "i + k * C < Suc k * C" using assms(1) by simp
  also have "\<dots> \<le> N * C" using assms(2) by (intro mult_le_mono1) simp
  finally show ?thesis .
qed

text \<open>
  Claim C2. For an analog packet with \<open>C\<close> channels and \<open>N\<close> samples each, whose buffer
  holds \<open>N * C\<close> values, the channel at position \<open>i\<close> of the packet's channel list gets
  appended exactly the buffer values at the offsets \<open>i\<close>, \<open>i + C\<close>, ...,
  \<open>i + (N - 1) * C\<close>, all of them inside the buffer; a Channel that no channel of the
  packet leads to is untouched.
\<close>

theorem interleave_correctness:
  assumes "aquisition_state d = Running" and "alloc_ok e"
    and "analog_channels_registered d a"
    and "length (an_data a) = an_num_samples a * length (an_channels a)"
  shows "\<exists>d'. data_feed_in e d (sr_device d) (SR_DF_ANALOG a) = Inr d' \<and>
     (\<forall>i<length (an_channels a). \<exists>p. sr_channel_map d (an_channels a ! i) = Some p \<and>
        map snd (actual_signal (channel_store d' p)) =
          map snd (actual_signal (channel_store d p)) @
          map (\<lambda>k. an_data a ! (i + k * length (an_channels a))) [0..<an_num_samples a] \<and>
        (\<forall>k<an_num_samples a. i + k * length (an_channels a) < length (an_data a))) \<and>
     (\<forall>p. Some p \<notin> sr_channel_map d ` set (an_channels a) \<longrightarrow>
        channel_store d' p = channel_store d p)"
proof -
  from assms(3) have reg: "\<forall>c\<in>set (an_channels a). sr_channel_map d c \<noteq> None"
    by (simp add: analog_channels_registered_def)
  from analog_registered_result[OF assms(1,2,3)] obtain d' where
    res: "data_feed_in e d (sr_device d) (SR_DF_ANALOG a) = Inr d'"
    and st: "\<forall>i<length (an_channels a). \<forall>p. sr_channel_map d (an_channels a ! i) = Some p \<longrightarrow>
        channel_store d' p = push_interleaved_samples (an_data a) i (an_num_samples a)
           (length (an_channels a)) (analog_ts e d i)
           (case samplerate_prop d of None \<Rightarrow> 0 | Some v \<Rightarrow> v) (channel_store d p)"
    and un: "\<forall>p. Some p \<notin> sr_channel_map d ` set (an_channels a) \<longrightarrow>
        channel_store d' p = channel_store d p"
    by blast
  have "\<forall>i<length (an_channels a). \<exists>p. sr_channel_map d (an_channels a ! i) = Some p \<and>
        map snd (actual_signal (channel_store d' p)) =
          map snd (actual_signal (channel_store d p)) @
          map (\<lambda>k. an_data a ! (i + k * length (an_channels a))) [0..<an_num_samples a] \<and>
        (\<forall>k<an_num_samples a. i + k * length (an_channels a) < length (an_data a))"
  proof (intro allI impI)
    fix i assume i: "i < length (an_channels a)"
    then have "an_channels a ! i \<in> set (an_channels a)" by simp
    with reg obtain p where p: "sr_channel_map d (an_channels a ! i) = Some p" by blast
    with st i have "channel_store d' p = push_interleaved_samples (an_data a) i (an_num_samples a)
           (length (an_channels a)) (analog_ts e d i)
           (case samplerate_prop d of None \<Rightarrow> 0 | Some v \<Rightarrow> v) (channel_store d p)"
      by blast
    then have vals: "map snd (actual_signal (channel_store d' p)) =
          map snd (actual_signal (channel_store d p)) @
          map (\<lambda>k. an_data a ! (i + k * length (an_channels a))) [0..<an_num_samples a]"
      by (simp add: push_interleaved_samples_def comp_def)
    have "\<forall>k<an_num_samples a. i + k * length (an_channels a) < length (an_data a)"
      using offset_in_range[OF i] assms(4) by simp
    with p vals show "\<exists>p. sr_channel_map d (an_channels a ! i) = Some p \<and>
        map snd (actual_signal (channel_store d' p)) =
          map snd (actual_signal (channel_store d p)) @
          map (\<lambda>k. an_data a ! (i + k * length (an_channels a))) [0..<an_num_samples a] \<and>
        (\<forall>k<an_num_samples a. i + k * length (an_channels a) < length (an_data a))"
      by blast
  qed
  with res un show ?thesis by blast
qed

text \<open>
  Claim C10. For an analog packet with zero samples the analog handler returns at once
  and the whole device state is unchanged (signals, inside-frame flag, frame-start
  timestamp, sample rate property), whatever the acquisition state is.
\<close>

theorem empty_analog_packet_is_noop:
  "an_num_samples a = 0 \<Longrightarrow>
     feed_in_analog e d a = Inr d \<and> data_feed_in e d sr_dev (SR_DF_ANALOG a) = Inr d"
  by (simp add: data_feed_in_def feed_in_analog_def)

subsection \<open>The example device\<close>

lemmas demo_defs = demo_device_def open_device_def BaseDevice_def demo_sr_device_def
  demo_ch_A_def demo_ch_B_def demo_env_def sr_device_open_def init_channels_def
  add_sr_channel_def add_channel_def map_insert_def map_index_def HardwareChannel_def
  add_channel_group_name_def Let_def

lemma demo_device_state:
  "aquisition_state demo_device = Running"
  "sr_device demo_device = demo_sr_device"
  "frame_began demo_device = False"
  "device_open demo_device"
  by (simp_all add: demo_defs)

lemma demo_device_sr_map:
  "sr_channel_map demo_device demo_ch_A = Some 0"
  "sr_channel_map demo_device demo_ch_B = Some (Suc 0)"
  by (simp_all add: demo_defs)

lemma demo_device_signals:
  "actual_signal (channel_store demo_device 0) = []"
  "actual_signal (channel_store demo_device (Suc 0)) = []"
  "channel_group_names (channel_store demo_device 0) = {[]}"
  "channel_count demo_device = 2"
  by (simp_all add: demo_defs)

lemma demo_registered: "analog_channels_registered demo_device demo_analog"
  by (simp add: analog_channels_registered_def demo_analog_def demo_device_sr_map)

theorem state_gated_ingestion_witness:
  "aquisition_state (pause_aquisition demo_device) \<noteq> Running \<and>
   data_feed_in (demo_env 2000) (pause_aquisition demo_device) demo_sr_device
     (SR_DF_ANALOG demo_analog) = Inr (pause_aquisition demo_device) \<and>
   aquisition_state demo_device = Running \<and> alloc_ok (demo_env 2000) \<and>
   analog_channels_registered demo_device demo_analog \<and>
   (\<exists>d'. data_feed_in (demo_env 2000) demo_device demo_sr_device (SR_DF_ANALOG demo_analog) = Inr d' \<and>
      length (actual_signal (channel_store d' 0)) = 5 \<and>
      length (actual_signal (channel_store d' 1)) = 5)"
proof -
  have p: "aquisition_state (pause_aquisition demo_device) \<noteq> Running"
    by (simp add: pause_aquisition_def)
  have r: "aquisition_state demo_device = Running \<and> demo_sr_device = sr_device demo_device \<and>
    alloc_ok (demo_env 2000) \<and> analog_channels_registered demo_device demo_analog"
    by (simp add: demo_device_state demo_registered demo_env_def)
  from state_gated_ingestion[of "pause_aquisition demo_device" "demo_env 2000" demo_sr_device
      demo_analog] p
  have 1: "data_feed_in (demo_env 2000) (pause_aquisition demo_device) demo_sr_device
     (SR_DF_ANALOG demo_analog) = Inr (pause_aquisition demo_device)" by blast
  from state_gated_ingestion[of demo_device "demo_env 2000" demo_sr_device demo_analog] r
  obtain d' where d': "data_feed_in (demo_env 2000) demo_device demo_sr_device
        (SR_DF_ANALOG demo_analog) = Inr d'"
    and len: "\<forall>c\<in>set (an_channels demo_analog). \<exists>p. sr_channel_map demo_device c = Some p \<and>
            length (actual_signal (channel_store d' p)) =
              length (actual_signal (channel_store demo_device p)) + an_num_samples demo_analog"
    by blast
  from len have "length (actual_signal (channel_store d' 0)) = 5"
    "length (actual_signal (channel_store d' 1)) = 5"
    by (simp_all add: demo_analog_def demo_device_sr_map demo_device_signals)
  with d' 1 p r show ?thesis by (intro conjI exI[of _ d']) simp_all
qed

theorem interleave_correctness_witness:
  "aquisition_state demo_device = Running \<and> alloc_ok (demo_env 2000) \<and>
   analog_channels_registered demo_device demo_analog \<and>
   length (an_data demo_analog) = an_num_samples demo_analog * length (an_channels demo_analog) \<and>
   (\<exists>d'. data_feed_in (demo_env 2000) demo_device (sr_device demo_device)
            (SR_DF_ANALOG demo_analog) = Inr d' \<and>
      map snd (actual_signal (channel_store d' 0)) = [10, 11, 12, 13, 14] \<and>
      map snd (actual_signal (channel_store d' 1)) = [20, 21, 22, 23, 24])"
proof -
  have a: "aquisition_state demo_device = Running" by (simp add: demo_device_state)
  have b: "alloc_ok (demo_env 2000)" by (simp add: demo_env_def)
  have c: "length (an_data demo_analog) =
      an_num_samples demo_analog * length (an_channels demo_analog)"
    by (simp add: demo_analog_def)
  from interleave_correctness[OF a b demo_registered c] obtain d' where
    d': "data_feed_in (demo_env 2000) demo_device (sr_device demo_device)
            (SR_DF_ANALOG demo_analog) = Inr d'"
    and v: "\<forall>i<length (an_channels demo_analog).
        \<exists>p. sr_channel_map demo_device (an_channels demo_analog ! i) = Some p \<and>
        map snd (actual_signal (channel_store d' p)) =
          map snd (actual_signal (channel_store demo_device p)) @
          map (\<lambda>k. an_data demo_analog ! (i + k * length (an_channels demo_analog)))
            [0..<an_num_samples demo_analog] \<and>
        (\<forall>k<an_num_samples demo_analog.
           i + k * length (an_channels demo_analog) < length (an_data demo_analog))"
    by blast
  have five: "[0..<5] = [0, 1, 2, 3, 4::nat]" by (simp add: upt_conv_Cons)
  from v[rule_format, of 0] have "map snd (actual_signal (channel_store d' 0)) = [10, 11, 12, 13, 14]"
    by (simp add: demo_analog_def demo_device_sr_map demo_device_signals five)
  moreover from v[rule_format, of 1]
  have "map snd (actual_signal (channel_store d' 1)) = [20, 21, 22, 23, 24]"
    by (simp add: demo_analog_def demo_device_sr_map demo_device_signals five)
  ultimately show ?thesis using a b c d' demo_registered
    by (intro conjI exI[of _ d'])
qed

theorem empty_analog_packet_is_noop_witness:
  "an_num_samples empty_analog = 0 \<and> aquisition_state demo_device = Running \<and>
   feed_in_analog (demo_env 2000) demo_device empty_analog = Inr demo_device \<and>
   data_feed_in (demo_env 2000) demo_device demo_sr_device (SR_DF_ANALOG empty_analog)
     = Inr demo_device"
proof -
  have z: "an_num_samples empty_analog = 0" by (simp add: empty_analog_def)
  from empty_analog_packet_is_noop[OF z, of "demo_env 2000" demo_device demo_sr_device]
  show ?thesis using z by (simp add: demo_device_state)
qed

subsection \<open>Frames and timestamps\<close>

lemma appended_eq:
  "actual_signal (channel_store d' p) = actual_signal (channel_store d p) @ new \<Longrightarrow>
     appended d d' p = new"
  by (simp add: appended_def)

lemma analog_appends:
  assumes "data_feed_in e d (sr_device d) (SR_DF_ANALOG a) = Inr d'"
  shows "actual_signal (channel_store d' p) =
           actual_signal (channel_store d p) @ appended d d' p"
    and "\<forall>s\<in>set (appended d d' p). \<exists>k<length (an_channels a).
           sr_channel_map d (an_channels a ! k) = Some p \<and> fst s = analog_ts e d k"
    and "current_frame d' = current_frame d"
proof -
  let ?loop = "feed_in_analog_loop e (an_data a) (an_num_samples a) (length (an_channels a))
             (case samplerate_prop d of None \<Rightarrow> 0 | Some v \<Rightarrow> v) 0 (an_channels a) d"
  from analog_result[OF assms] have "d' = d \<or> ?loop = Inr d'" .
  then have "(actual_signal (channel_store d' p) =
           actual_signal (channel_store d p) @ appended d d' p \<and>
      (\<forall>s\<in>set (appended d d' p). \<exists>k<length (an_channels a).
           sr_channel_map d (an_channels a ! k) = Some p \<and> fst s = analog_ts e d k)) \<and>
      d' = d\<lparr>channel_store := channel_store d'\<rparr>"
  proof
    assume "d' = d"
    then show ?thesis by (simp add: appended_def)
  next
    assume run: "?loop = Inr d'"
    from loop_appends[OF run, of p] obtain new where
      new: "actual_signal (channel_store d' p) = actual_signal (channel_store d p) @ new"
      and ts: "\<forall>s\<in>set new. \<exists>k<length (an_channels a).
           sr_channel_map d (an_channels a ! k) = Some p \<and> fst s = analog_ts e d (0 + k)"
      by blast
    from appended_eq[OF new] new ts loop_frame[OF run] show ?thesis by simp
  qed
  then have a: "actual_signal (channel_store d' p) =
           actual_signal (channel_store d p) @ appended d d' p"
    and b: "\<forall>s\<in>set (appended d d' p). \<exists>k<length (an_channels a).
           sr_channel_map d (an_channels a ! k) = Some p \<and> fst s = analog_ts e d k"
    and c: "d' = d\<lparr>channel_store := channel_store d'\<rparr>"
    by blast+
  show "actual_signal (channel_store d' p) =
           actual_signal (channel_store d p) @ appended d d' p" by (rule a)
  show "\<forall>s\<in>set (appended d d' p). \<exists>k<length (an_channels a).
           sr_channel_map d (an_channels a ! k) = Some p \<and> fst s = analog_ts e d k"
    by (rule b)
  show "current_frame d' = current_frame d" by (subst c) (simp add: current_frame_def)
qed

lemma dispatch_frame:
  assumes "data_feed_in e d (sr_device d) pkt = Inr d'"
  shows "current_frame d' = open_frame_start (current_frame d) [(e, pkt)]"
proof (cases pkt)
  case (SR_DF_ANALOG a)
  with assms analog_appends(3)[of e d a d'] show ?thesis by simp
qed (use assms in \<open>auto simp: data_feed_in_def feed_in_header_def feed_in_meta_def
      feed_in_trigger_def feed_in_logic_def feed_in_frame_begin_def feed_in_frame_end_def
      current_frame_def split: if_splits\<close>)

lemma open_frame_start_step:
  "open_frame_start cur (ep # ps) = open_frame_start (open_frame_start cur [ep]) ps"
proof -
  obtain e p where "ep = (e, p)" by (cases ep)
  then show ?thesis by (cases p) simp_all
qed

lemma open_frame_start_append:
  "open_frame_start cur (ps @ qs) = open_frame_start (open_frame_start cur ps) qs"
proof (induction ps arbitrary: cur)
  case Nil
  then show ?case by simp
next
  case (Cons ep ps)
  have "open_frame_start cur ((ep # ps) @ qs) =
        open_frame_start (open_frame_start cur [ep]) (ps @ qs)"
    using open_frame_start_step[of cur ep "ps @ qs"] by simp
  also have "\<dots> = open_frame_start (open_frame_start (open_frame_start cur [ep]) ps) qs"
    by (rule Cons.IH)
  also have "open_frame_start (open_frame_start cur [ep]) ps = open_frame_start cur (ep # ps)"
    by (rule open_frame_start_step[symmetric])
  finally show ?case .
qed

lemma open_frame_start_no_marker:
  "\<forall>(e, p)\<in>set ps. p \<noteq> SR_DF_FRAME_BEGIN \<and> p \<noteq> SR_DF_FRAME_END \<Longrightarrow>
     open_frame_start cur ps = cur"
proof (induction ps)
  case Nil
  then show ?case by simp
next
  case (Cons ep ps)
  obtain e p where ep: "ep = (e, p)" by (cases ep)
  with Cons.prems have "p \<noteq> SR_DF_FRAME_BEGIN" "p \<noteq> SR_DF_FRAME_END" by simp_all
  then have "open_frame_start cur ((e, p) # ps) = open_frame_start cur ps"
    by (cases p) simp_all
  with Cons ep show ?case by simp
qed

lemma dispatch_all_frame:
  "dispatch_all d ps = Inr d' \<Longrightarrow> current_frame d' = open_frame_start (current_frame d) ps"
proof (induction ps arbitrary: d)
  case Nil
  then show ?case by simp
next
  case (Cons ep ps)
  obtain e p where ep: "ep = (e, p)" by (cases ep)
  from Cons.prems ep obtain dm where
    step: "data_feed_in e d (sr_device d) p = Inr dm" and rest: "dispatch_all dm ps = Inr d'"
    by (auto split: sum.splits)
  from Cons.IH[OF rest] dispatch_frame[OF step] ep
  show ?case using open_frame_start_step[of "current_frame d" "(e, p)" ps] by simp
qed

lemma wall_clock_le: "wall_clock e i \<le> wall_clock e' j \<longleftrightarrow> now_msecs e i \<le> now_msecs e' j"
  by (simp add: wall_clock_def divide_le_cancel)

text \<open>
  Claim C3, amended. An analog packet only appends samples. When the packets dispatched
  before it leave a frame open (the last FrameBegin is followed by no FrameEnd), every
  sample it appends to any channel carries the timestamp recorded when that FrameBegin
  was received. When they leave no frame open (no FrameBegin yet, or a FrameEnd after the
  last one), a sample appended to a channel carries the clock reading taken for that
  channel while the packet is handled. Across two consecutive analog packets outside a
  frame the timestamps are ordered exactly as the clock readings they come from: they do
  not decrease as long as the system clock does not step back, and they do when it does.
\<close>

theorem frame_timestamp_consistency:
  "(dispatch_all d ps = Inr d1 \<and>
    data_feed_in e d1 (sr_device d1) (SR_DF_ANALOG a) = Inr d2 \<longrightarrow>
      (\<forall>p. actual_signal (channel_store d2 p) =
              actual_signal (channel_store d1 p) @ appended d1 d2 p \<and>
           (\<forall>s\<in>set (appended d1 d2 p).
              (case open_frame_start (current_frame d) ps of
                 Some t \<Rightarrow> fst s = t
               | None \<Rightarrow> \<exists>k<length (an_channels a).
                   sr_channel_map d1 (an_channels a ! k) = Some p \<and> fst s = wall_clock e k)))) \<and>
   ((\<forall>(e, p)\<in>set qs'. p \<noteq> SR_DF_FRAME_BEGIN \<and> p \<noteq> SR_DF_FRAME_END) \<longrightarrow>
      open_frame_start cur (ps' @ (e0, SR_DF_FRAME_BEGIN) # qs') = Some (wall_clock e0 0) \<and>
      open_frame_start cur (ps' @ (e0, SR_DF_FRAME_END) # qs') = None) \<and>
   (dispatch_all c qs = Inr c0 \<and> open_frame_start (current_frame c) qs = None \<and>
    data_feed_in e1 c0 (sr_device c0) (SR_DF_ANALOG a1) = Inr c1 \<and>
    data_feed_in e2 c1 (sr_device c1) (SR_DF_ANALOG a2) = Inr c2 \<longrightarrow>
      (\<forall>p q. \<forall>s\<in>set (appended c0 c1 p). \<forall>s'\<in>set (appended c1 c2 q).
         \<exists>i<length (an_channels a1). \<exists>j<length (an_channels a2).
            fst s = wall_clock e1 i \<and> fst s' = wall_clock e2 j \<and>
            (fst s \<le> fst s' \<longleftrightarrow> now_msecs e1 i \<le> now_msecs e2 j)))"
proof (intro conjI impI)
  assume h: "dispatch_all d ps = Inr d1 \<and>
    data_feed_in e d1 (sr_device d1) (SR_DF_ANALOG a) = Inr d2"
  then have fr: "current_frame d1 = open_frame_start (current_frame d) ps"
    using dispatch_all_frame[of d ps d1] by simp
  from h have run: "data_feed_in e d1 (sr_device d1) (SR_DF_ANALOG a) = Inr d2" by simp
  show "\<forall>p. actual_signal (channel_store d2 p) =
              actual_signal (channel_store d1 p) @ appended d1 d2 p \<and>
           (\<forall>s\<in>set (appended d1 d2 p).
              (case open_frame_start (current_frame d) ps of
                 Some t \<Rightarrow> fst s = t
               | None \<Rightarrow> \<exists>k<length (an_channels a).
                   sr_channel_map d1 (an_channels a ! k) = Some p \<and> fst s = wall_clock e k))"
  proof (intro allI conjI ballI)
    fix p
    show "actual_signal (channel_store d2 p) =
              actual_signal (channel_store d1 p) @ appended d1 d2 p"
      by (rule analog_appends(1)[OF run])
  next
    fix p s assume "s \<in> set (appended d1 d2 p)"
    with analog_appends(2)[OF run, of p] obtain k where
      k: "k < length (an_channels a)" "sr_channel_map d1 (an_channels a ! k) = Some p"
        "fst s = analog_ts e d1 k"
      by blast
    show "case open_frame_start (current_frame d) ps of
                 Some t \<Rightarrow> fst s = t
               | None \<Rightarrow> \<exists>k<length (an_channels a).
                   sr_channel_map d1 (an_channels a ! k) = Some p \<and> fst s = wall_clock e k"
    proof (cases "open_frame_start (current_frame d) ps")
      case None
      with fr have "\<not> frame_began d1" by (simp add: current_frame_def split: if_splits)
      with k have "fst s = wall_clock e k" by (simp add: analog_ts_def)
      with k None show ?thesis by auto
    next
      case (Some t)
      with fr have "frame_began d1" "frame_start_timestamp d1 = t"
        by (simp_all add: current_frame_def split: if_splits)
      with k Some show ?thesis by (simp add: analog_ts_def)
    qed
  qed
next
  assume nm: "\<forall>(e, p)\<in>set qs'. p \<noteq> SR_DF_FRAME_BEGIN \<and> p \<noteq> SR_DF_FRAME_END"
  show "open_frame_start cur (ps' @ (e0, SR_DF_FRAME_BEGIN) # qs') = Some (wall_clock e0 0)"
    by (simp add: open_frame_start_append open_frame_start_no_marker[OF nm])
  show "open_frame_start cur (ps' @ (e0, SR_DF_FRAME_END) # qs') = None"
    by (simp add: open_frame_start_append open_frame_start_no_marker[OF nm])
next
  assume h: "dispatch_all c qs = Inr c0 \<and> open_frame_start (current_frame c) qs = None \<and>
    data_feed_in e1 c0 (sr_device c0) (SR_DF_ANALOG a1) = Inr c1 \<and>
    data_feed_in e2 c1 (sr_device c1) (SR_DF_ANALOG a2) = Inr c2"
  then have r1: "data_feed_in e1 c0 (sr_device c0) (SR_DF_ANALOG a1) = Inr c1"
    and r2: "data_feed_in e2 c1 (sr_device c1) (SR_DF_ANALOG a2) = Inr c2"
    by simp_all
  from h dispatch_all_frame[of c qs c0] have f0: "current_frame c0 = None" by simp
  with analog_appends(3)[OF r1] have f1: "current_frame c1 = None" by simp
  from f0 have nf0: "\<not> frame_began c0" by (simp add: current_frame_def split: if_splits)
  from f1 have nf1: "\<not> frame_began c1" by (simp add: current_frame_def split: if_splits)
  show "\<forall>p q. \<forall>s\<in>set (appended c0 c1 p). \<forall>s'\<in>set (appended c1 c2 q).
         \<exists>i<length (an_channels a1). \<exists>j<length (an_channels a2).
            fst s = wall_clock e1 i \<and> fst s' = wall_clock e2 j \<and>
            (fst s \<le> fst s' \<longleftrightarrow> now_msecs e1 i \<le> now_msecs e2 j)"
  proof (intro allI ballI)
    fix p q s s'
    assume s: "s \<in> set (appended c0 c1 p)" and s': "s' \<in> set (appended c1 c2 q)"
    from analog_appends(2)[OF r1, of p] s obtain i where
      i: "i < length (an_channels a1)" "fst s = analog_ts e1 c0 i" by blast
    from analog_appends(2)[OF r2, of q] s' obtain j where
      j: "j < length (an_channels a2)" "fst s' = analog_ts e2 c1 j" by blast
    from i j nf0 nf1 have ij: "i < length (an_channels a1)" "fst s = wall_clock e1 i"
      "j < length (an_channels a2)" "fst s' = wall_clock e2 j"
      by (simp_all add: analog_ts_def)
    then have "(fst s \<le> fst s') = (now_msecs e1 i \<le> now_msecs e2 j)"
      by (simp add: wall_clock_le)
    with ij show "\<exists>i<length (an_channels a1). \<exists>j<length (an_channels a2).
            fst s = wall_clock e1 i \<and> fst s' = wall_clock e2 j \<and>
            (fst s \<le> fst s' \<longleftrightarrow> now_msecs e1 i \<le> now_msecs e2 j)"
      by blast
  qed
qed

lemma analog_only_store:
  assumes "data_feed_in e d (sr_device d) (SR_DF_ANALOG a) = Inr d'"
  shows "d' = d\<lparr>channel_store := channel_store d'\<rparr>"
proof -
  from analog_result[OF assms] show ?thesis
  proof
    assume "d' = d" then show ?thesis by simp
  next
    assume "feed_in_analog_loop e (an_data a) (an_num_samples a) (length (an_channels a))
             (case samplerate_prop d of None \<Rightarrow> 0 | Some v \<Rightarrow> v) 0 (an_channels a) d = Inr d'"
    then show ?thesis by (rule loop_frame)
  qed
qed

lemma analog_registered_exact:
  assumes "aquisition_state d = Running" "alloc_ok e" "analog_channels_registered d a"
  shows "\<exists>d'. data_feed_in e d (sr_device d) (SR_DF_ANALOG a) = Inr d' \<and>
     (\<forall>i<length (an_channels a). \<forall>p. sr_channel_map d (an_channels a ! i) = Some p \<longrightarrow>
        appended d d' p =
          map (\<lambda>k. (analog_ts e d i, an_data a ! (i + k * length (an_channels a))))
            [0..<an_num_samples a])"
proof -
  from analog_registered_result[OF assms] obtain d' where
    res: "data_feed_in e d (sr_device d) (SR_DF_ANALOG a) = Inr d'"
    and st: "\<forall>i<length (an_channels a). \<forall>p. sr_channel_map d (an_channels a ! i) = Some p \<longrightarrow>
        channel_store d' p = push_interleaved_samples (an_data a) i (an_num_samples a)
           (length (an_channels a)) (analog_ts e d i)
           (case samplerate_prop d of None \<Rightarrow> 0 | Some v \<Rightarrow> v) (channel_store d p)"
    by blast
  have "\<forall>i<length (an_channels a). \<forall>p. sr_channel_map d (an_channels a ! i) = Some p \<longrightarrow>
        appended d d' p =
          map (\<lambda>k. (analog_ts e d i, an_data a ! (i + k * length (an_channels a))))
            [0..<an_num_samples a]"
  proof (intro allI impI)
    fix i p assume "i < length (an_channels a)" "sr_channel_map d (an_channels a ! i) = Some p"
    with st have "channel_store d' p = push_interleaved_samples (an_data a) i (an_num_samples a)
           (length (an_channels a)) (analog_ts e d i)
           (case samplerate_prop d of None \<Rightarrow> 0 | Some v \<Rightarrow> v) (channel_store d p)"
      by blast
    then show "appended d d' p =
          map (\<lambda>k. (analog_ts e d i, an_data a ! (i + k * length (an_channels a))))
            [0..<an_num_samples a]"
      by (simp add: appended_def push_interleaved_samples_def)
  qed
  with res show ?thesis by blast
qed

lemma framed_demo_device_state:
  "aquisition_state framed_demo_device = Running"
  "sr_device framed_demo_device = demo_sr_device"
  "analog_channels_registered framed_demo_device demo_analog"
  "sr_channel_map framed_demo_device demo_ch_A = Some 0"
  "sr_channel_map framed_demo_device demo_ch_B = Some (Suc 0)"
  using demo_registered
  by (simp_all add: framed_demo_device_def demo_device_state demo_device_sr_map
        analog_channels_registered_def)

lemma demo_frame_begin:
  "dispatch_all demo_device [(demo_env 5000, SR_DF_FRAME_BEGIN), (demo_env 5500, SR_DF_HEADER)]
     = Inr framed_demo_device"
  by (simp add: data_feed_in_def feed_in_frame_begin_def feed_in_header_def wall_clock_def
        demo_env_def framed_demo_device_def)

lemma closed_frame_demo_device_state:
  "aquisition_state closed_frame_demo_device = Running"
  "analog_channels_registered closed_frame_demo_device demo_analog"
  "sr_channel_map closed_frame_demo_device demo_ch_A = Some 0"
  "sr_channel_map closed_frame_demo_device demo_ch_B = Some (Suc 0)"
  "\<not> frame_began closed_frame_demo_device"
  using demo_registered
  by (simp_all add: closed_frame_demo_device_def demo_device_state demo_device_sr_map
        analog_channels_registered_def)

lemma demo_frame_end:
  "dispatch_all demo_device [(demo_env 5000, SR_DF_FRAME_BEGIN), (demo_env 6000, SR_DF_FRAME_END)]
     = Inr closed_frame_demo_device"
  by (simp add: data_feed_in_def feed_in_frame_begin_def feed_in_frame_end_def wall_clock_def
        demo_env_def closed_frame_demo_device_def)

lemma demo_analog_shape:
  "length (an_channels demo_analog) = 2" "an_channels demo_analog ! 0 = demo_ch_A"
  "an_channels demo_analog ! Suc 0 = demo_ch_B" "an_num_samples demo_analog = 5"
  by (simp_all add: demo_analog_def)

lemma demo_env_ok: "alloc_ok (demo_env t)"
  by (simp add: demo_env_def)

lemma current_frame_demo:
  "current_frame demo_device = None"
  by (simp add: current_frame_def demo_device_state)



theorem frame_timestamp_consistency_witness:
  "dispatch_all demo_device [(demo_env 5000, SR_DF_FRAME_BEGIN), (demo_env 5500, SR_DF_HEADER)]
     = Inr framed_demo_device \<and>
   (\<exists>d2. data_feed_in (demo_env 7000) framed_demo_device (sr_device framed_demo_device)
            (SR_DF_ANALOG demo_analog) = Inr d2 \<and>
      length (appended framed_demo_device d2 0) = 5 \<and>
      list_all (\<lambda>s. fst s = 5) (appended framed_demo_device d2 0) \<and>
      length (appended framed_demo_device d2 1) = 5 \<and>
      list_all (\<lambda>s. fst s = 5) (appended framed_demo_device d2 1)) \<and>
   dispatch_all demo_device [(demo_env 5000, SR_DF_FRAME_BEGIN), (demo_env 6000, SR_DF_FRAME_END)]
     = Inr closed_frame_demo_device \<and>
   (\<exists>d2. data_feed_in (demo_env 7000) closed_frame_demo_device
            (sr_device closed_frame_demo_device) (SR_DF_ANALOG demo_analog) = Inr d2 \<and>
      length (appended closed_frame_demo_device d2 0) = 5 \<and>
      list_all (\<lambda>s. fst s = 7) (appended closed_frame_demo_device d2 0)) \<and>
   (\<exists>c1 c2. data_feed_in (demo_env 2000) demo_device (sr_device demo_device)
               (SR_DF_ANALOG demo_analog) = Inr c1 \<and>
      data_feed_in (demo_env 3000) c1 (sr_device c1) (SR_DF_ANALOG demo_analog) = Inr c2 \<and>
      length (appended demo_device c1 0) = 5 \<and> length (appended c1 c2 1) = 5 \<and>
      list_all (\<lambda>s. list_all (\<lambda>s'. fst s \<le> fst s') (appended c1 c2 1))
        (appended demo_device c1 0))"
proof -
  note shape = demo_analog_shape
  \<comment> \<open>inside the frame\<close>
  from analog_registered_exact[OF framed_demo_device_state(1) demo_env_ok
      framed_demo_device_state(3), of 7000]
  obtain d2 where
    r: "data_feed_in (demo_env 7000) framed_demo_device (sr_device framed_demo_device)
            (SR_DF_ANALOG demo_analog) = Inr d2"
    and x: "\<forall>i<length (an_channels demo_analog). \<forall>p.
        sr_channel_map framed_demo_device (an_channels demo_analog ! i) = Some p \<longrightarrow>
        appended framed_demo_device d2 p =
          map (\<lambda>k. (analog_ts (demo_env 7000) framed_demo_device i,
                     an_data demo_analog ! (i + k * length (an_channels demo_analog))))
            [0..<an_num_samples demo_analog]"
    by blast
  from x[rule_format, of 0 0] x[rule_format, of 1 1]
  have l0: "length (appended framed_demo_device d2 0) = 5"
    and l1: "length (appended framed_demo_device d2 1) = 5"
    by (simp_all add: shape framed_demo_device_state)
  from frame_timestamp_consistency[THEN conjunct1, rule_format,
      of demo_device "[(demo_env 5000, SR_DF_FRAME_BEGIN), (demo_env 5500, SR_DF_HEADER)]"
         framed_demo_device "demo_env 7000" demo_analog d2] demo_frame_begin r
  have ts: "\<forall>s\<in>set (appended framed_demo_device d2 p). fst s = 5" for p
    by (simp add: current_frame_demo wall_clock_def demo_env_def)
  have a0: "list_all (\<lambda>s. fst s = 5) (appended framed_demo_device d2 0)"
    and a1: "list_all (\<lambda>s. fst s = 5) (appended framed_demo_device d2 1)"
    using ts[of 0] ts[of 1] by (simp_all add: list_all_iff)
  have A: "\<exists>d2. data_feed_in (demo_env 7000) framed_demo_device (sr_device framed_demo_device)
            (SR_DF_ANALOG demo_analog) = Inr d2 \<and>
      length (appended framed_demo_device d2 0) = 5 \<and>
      list_all (\<lambda>s. fst s = 5) (appended framed_demo_device d2 0) \<and>
      length (appended framed_demo_device d2 1) = 5 \<and>
      list_all (\<lambda>s. fst s = 5) (appended framed_demo_device d2 1)"
    using r l0 a0 l1 a1 by (intro exI[of _ d2] conjI)
  \<comment> \<open>after the frame has ended\<close>
  from analog_registered_exact[OF closed_frame_demo_device_state(1) demo_env_ok
      closed_frame_demo_device_state(2), of 7000]
  obtain d3 where
    r3: "data_feed_in (demo_env 7000) closed_frame_demo_device
            (sr_device closed_frame_demo_device) (SR_DF_ANALOG demo_analog) = Inr d3"
    and x3: "\<forall>i<length (an_channels demo_analog). \<forall>p.
        sr_channel_map closed_frame_demo_device (an_channels demo_analog ! i) = Some p \<longrightarrow>
        appended closed_frame_demo_device d3 p =
          map (\<lambda>k. (analog_ts (demo_env 7000) closed_frame_demo_device i,
                     an_data demo_analog ! (i + k * length (an_channels demo_analog))))
            [0..<an_num_samples demo_analog]"
    by blast
  from x3[rule_format, of 0 0] have l3: "length (appended closed_frame_demo_device d3 0) = 5"
    by (simp add: shape closed_frame_demo_device_state)
  have fe: "open_frame_start (current_frame demo_device)
      [(demo_env 5000, SR_DF_FRAME_BEGIN), (demo_env 6000, SR_DF_FRAME_END)] = None"
    by (simp add: current_frame_demo)
  from frame_timestamp_consistency[THEN conjunct1, rule_format,
      of demo_device "[(demo_env 5000, SR_DF_FRAME_BEGIN), (demo_env 6000, SR_DF_FRAME_END)]"
         closed_frame_demo_device "demo_env 7000" demo_analog d3] demo_frame_end r3
  have ts3: "\<forall>s\<in>set (appended closed_frame_demo_device d3 0).
      \<exists>k<length (an_channels demo_analog).
        sr_channel_map closed_frame_demo_device (an_channels demo_analog ! k) = Some 0 \<and>
        fst s = wall_clock (demo_env 7000) k"
    by (simp add: fe)
  have a3: "list_all (\<lambda>s. fst s = 7) (appended closed_frame_demo_device d3 0)"
    unfolding list_all_iff
  proof
    fix s assume "s \<in> set (appended closed_frame_demo_device d3 0)"
    with ts3 obtain k where k: "k < 2"
      "sr_channel_map closed_frame_demo_device (an_channels demo_analog ! k) = Some 0"
      "fst s = wall_clock (demo_env 7000) k"
      by (auto simp: shape)
    from k(1) have "k = 0 \<or> k = Suc 0" by auto
    with k(2) have "k = 0" by (auto simp: shape closed_frame_demo_device_state)
    with k(3) show "fst s = 7" by (simp add: wall_clock_def demo_env_def)
  qed
  have B: "\<exists>d2. data_feed_in (demo_env 7000) closed_frame_demo_device
            (sr_device closed_frame_demo_device) (SR_DF_ANALOG demo_analog) = Inr d2 \<and>
      length (appended closed_frame_demo_device d2 0) = 5 \<and>
      list_all (\<lambda>s. fst s = 7) (appended closed_frame_demo_device d2 0)"
    using r3 l3 a3 by (intro exI[of _ d3] conjI)
  \<comment> \<open>two packets outside a frame\<close>
  from analog_registered_exact[OF demo_device_state(1) demo_env_ok demo_registered, of 2000]
  obtain c1 where
    r1: "data_feed_in (demo_env 2000) demo_device (sr_device demo_device)
            (SR_DF_ANALOG demo_analog) = Inr c1"
    and m1: "\<forall>i<length (an_channels demo_analog). \<forall>p.
        sr_channel_map demo_device (an_channels demo_analog ! i) = Some p \<longrightarrow>
        appended demo_device c1 p =
          map (\<lambda>k. (analog_ts (demo_env 2000) demo_device i,
                     an_data demo_analog ! (i + k * length (an_channels demo_analog))))
            [0..<an_num_samples demo_analog]"
    by blast
  have c1: "c1 = demo_device\<lparr>channel_store := channel_store c1\<rparr>"
    using analog_only_store[OF r1] .
  have run1: "aquisition_state c1 = Running" by (subst c1) (simp add: demo_device_state)
  have reg1: "analog_channels_registered c1 demo_analog"
    using demo_registered by (subst c1) (simp add: analog_channels_registered_def)
  have map1: "sr_channel_map c1 demo_ch_B = Some (Suc 0)"
    by (subst c1) (simp add: demo_device_sr_map)
  from analog_registered_exact[OF run1 demo_env_ok reg1, of 3000]
  obtain c2 where
    r2: "data_feed_in (demo_env 3000) c1 (sr_device c1) (SR_DF_ANALOG demo_analog) = Inr c2"
    and m2: "\<forall>i<length (an_channels demo_analog). \<forall>p.
        sr_channel_map c1 (an_channels demo_analog ! i) = Some p \<longrightarrow>
        appended c1 c2 p =
          map (\<lambda>k. (analog_ts (demo_env 3000) c1 i,
                     an_data demo_analog ! (i + k * length (an_channels demo_analog))))
            [0..<an_num_samples demo_analog]"
    by blast
  from m1[rule_format, of 0 0] have k0: "length (appended demo_device c1 0) = 5"
    by (simp add: shape demo_device_sr_map)
  from m2[rule_format, of 1 1] have k1: "length (appended c1 c2 1) = 5"
    by (simp add: shape map1)
  have st0: "dispatch_all demo_device [] = Inr demo_device"
    "open_frame_start (current_frame demo_device) [] = None"
    by (simp_all add: current_frame_demo)
  from frame_timestamp_consistency[THEN conjunct2, THEN conjunct2, rule_format,
      of demo_device "[]" demo_device "demo_env 2000" demo_analog c1 "demo_env 3000"
         demo_analog c2] st0 r1 r2
  have ord: "\<forall>p q. \<forall>s\<in>set (appended demo_device c1 p). \<forall>s'\<in>set (appended c1 c2 q).
         \<exists>i<length (an_channels demo_analog). \<exists>j<length (an_channels demo_analog).
            fst s = wall_clock (demo_env 2000) i \<and> fst s' = wall_clock (demo_env 3000) j \<and>
            (fst s \<le> fst s' \<longleftrightarrow>
               now_msecs (demo_env 2000) i \<le> now_msecs (demo_env 3000) j)"
    by blast
  have mono: "list_all (\<lambda>s. list_all (\<lambda>s'. fst s \<le> fst s') (appended c1 c2 1))
        (appended demo_device c1 0)"
    unfolding list_all_iff
  proof (intro ballI)
    fix s s' assume "s \<in> set (appended demo_device c1 0)" "s' \<in> set (appended c1 c2 1)"
    with ord obtain i j where "i < length (an_channels demo_analog)"
      "j < length (an_channels demo_analog)"
      "(fst s \<le> fst s') = (now_msecs (demo_env 2000) i \<le> now_msecs (demo_env 3000) j)"
      by blast
    then show "fst s \<le> fst s'" by (simp add: shape demo_env_def)
  qed
  have C: "\<exists>c1 c2. data_feed_in (demo_env 2000) demo_device (sr_device demo_device)
               (SR_DF_ANALOG demo_analog) = Inr c1 \<and>
      data_feed_in (demo_env 3000) c1 (sr_device c1) (SR_DF_ANALOG demo_analog) = Inr c2 \<and>
      length (appended demo_device c1 0) = 5 \<and> length (appended c1 c2 1) = 5 \<and>
      list_all (\<lambda>s. list_all (\<lambda>s'. fst s \<le> fst s') (appended c1 c2 1))
        (appended demo_device c1 0)"
    using r1 r2 k0 k1 mono by (intro exI[of _ c1] exI[of _ c2] conjI)
  from demo_frame_begin A demo_frame_end B C show ?thesis by (intro conjI)
qed

theorem clock_step_back_counterexample:
  "\<not> frame_began demo_device \<and>
   (\<exists>c1 c2. data_feed_in (demo_env 3000) demo_device (sr_device demo_device)
               (SR_DF_ANALOG demo_analog) = Inr c1 \<and>
      data_feed_in (demo_env 2000) c1 (sr_device c1) (SR_DF_ANALOG demo_analog) = Inr c2 \<and>
      map fst (appended demo_device c1 0) = [3, 3, 3, 3, 3] \<and>
      map fst (appended c1 c2 0) = [2, 2, 2, 2, 2])"
proof -
  note shape = demo_analog_shape
  have nf: "\<not> frame_began demo_device" by (simp add: demo_device_state)
  have five: "[0..<5] = [0, 1, 2, 3, 4::nat]" by (simp add: upt_conv_Cons)
  from analog_registered_exact[OF demo_device_state(1) demo_env_ok demo_registered, of 3000]
  obtain c1 where
    r1: "data_feed_in (demo_env 3000) demo_device (sr_device demo_device)
            (SR_DF_ANALOG demo_analog) = Inr c1"
    and m1: "\<forall>i<length (an_channels demo_analog). \<forall>p.
        sr_channel_map demo_device (an_channels demo_analog ! i) = Some p \<longrightarrow>
        appended demo_device c1 p =
          map (\<lambda>k. (analog_ts (demo_env 3000) demo_device i,
                     an_data demo_analog ! (i + k * length (an_channels demo_analog))))
            [0..<an_num_samples demo_analog]"
    by blast
  have c1: "c1 = demo_device\<lparr>channel_store := channel_store c1\<rparr>"
    using analog_only_store[OF r1] .
  have run1: "aquisition_state c1 = Running" by (subst c1) (simp add: demo_device_state)
  have reg1: "analog_channels_registered c1 demo_analog"
    using demo_registered by (subst c1) (simp add: analog_channels_registered_def)
  have map1: "sr_channel_map c1 demo_ch_A = Some 0"
    by (subst c1) (simp add: demo_device_sr_map)
  have nf1: "\<not> frame_began c1" by (subst c1) (simp add: demo_device_state)
  from analog_registered_exact[OF run1 demo_env_ok reg1, of 2000]
  obtain c2 where
    r2: "data_feed_in (demo_env 2000) c1 (sr_device c1) (SR_DF_ANALOG demo_analog) = Inr c2"
    and m2: "\<forall>i<length (an_channels demo_analog). \<forall>p.
        sr_channel_map c1 (an_channels demo_analog ! i) = Some p \<longrightarrow>
        appended c1 c2 p =
          map (\<lambda>k. (analog_ts (demo_env 2000) c1 i,
                     an_data demo_analog ! (i + k * length (an_channels demo_analog))))
            [0..<an_num_samples demo_analog]"
    by blast
  from m1[rule_format, of 0 0] nf have t1: "map fst (appended demo_device c1 0) = [3, 3, 3, 3, 3]"
    by (simp add: shape demo_device_sr_map five analog_ts_def wall_clock_def demo_env_def)
  from m2[rule_format, of 0 0] nf1 have t2: "map fst (appended c1 c2 0) = [2, 2, 2, 2, 2]"
    by (simp add: shape map1 five analog_ts_def wall_clock_def demo_env_def)
  have "\<exists>c1 c2. data_feed_in (demo_env 3000) demo_device (sr_device demo_device)
               (SR_DF_ANALOG demo_analog) = Inr c1 \<and>
      data_feed_in (demo_env 2000) c1 (sr_device c1) (SR_DF_ANALOG demo_analog) = Inr c2 \<and>
      map fst (appended demo_device c1 0) = [3, 3, 3, 3, 3] \<and>
      map fst (appended c1 c2 0) = [2, 2, 2, 2, 2]"
    using r1 r2 t1 t2 by (intro exI[of _ c1] exI[of _ c2] conjI)
  with nf show ?thesis by (intro conjI)
qed

subsection \<open>Lifecycle\<close>

text \<open>
  Claim C7. \<open>close\<close> on a device that is not open returns the device unchanged. On any
  device \<open>close\<close> returns normally, also when the driver's close throws, the result
  is not open, and closing it again changes nothing.
\<close>

theorem close_never_throws:
  "(\<not> device_open d \<longrightarrow> close e d = Inr d) \<and>
   (\<exists>d'. close e d = Inr d' \<and> \<not> device_open d' \<and> close e' d' = Inr d')"
  by (simp add: close_def sr_device_close_def Let_def)

theorem close_never_throws_witness:
  "\<not> device_open (BaseDevice demo_sr_device 0) \<and> sr_close_fails (demo_env 0) \<and>
   close (demo_env 0) (BaseDevice demo_sr_device 0) = Inr (BaseDevice demo_sr_device 0) \<and>
   device_open demo_device \<and>
   (\<exists>d'. close (demo_env 0) demo_device = Inr d' \<and> \<not> device_open d' \<and>
      close (demo_env 0) d' = Inr d')"
proof -
  have n: "\<not> device_open (BaseDevice demo_sr_device 0)" by (simp add: BaseDevice_def)
  have f: "sr_close_fails (demo_env 0)" by (simp add: demo_env_def)
  from close_never_throws[of "BaseDevice demo_sr_device 0" "demo_env 0" "demo_env 0"] n
  have c: "close (demo_env 0) (BaseDevice demo_sr_device 0) = Inr (BaseDevice demo_sr_device 0)"
    by blast
  from close_never_throws[of demo_device "demo_env 0" "demo_env 0"]
  have x: "\<exists>d'. close (demo_env 0) demo_device = Inr d' \<and> \<not> device_open d' \<and>
      close (demo_env 0) d' = Inr d'" by blast
  from n f c demo_device_state(4) x show ?thesis by (intro conjI)
qed

subsection \<open>Packets the registry does not cover\<close>

text \<open>
  Claim C8 (the code differs). With the example device Running, an analog packet that
  names an unregistered channel is not dropped: the lookup goes on past the missing
  entry and the call ends in the dereference of a null pointer.
\<close>

theorem unknown_channel_null_dereference:
  "aquisition_state demo_device = Running \<and>
   sr_channel_map demo_device unknown_ch = None \<and>
   data_feed_in (demo_env 2000) demo_device (sr_device demo_device) (SR_DF_ANALOG stray_analog)
     = Inl NullPointerDereference"
proof -
  have u: "sr_channel_map demo_device unknown_ch = None"
    by (simp add: demo_defs unknown_ch_def)
  have "feed_in_analog (demo_env 2000) demo_device stray_analog = Inl NullPointerDereference"
    by (simp add: feed_in_analog_def stray_analog_def demo_env_def demo_device_sr_map u Let_def)
  with u show ?thesis by (simp add: data_feed_in_def demo_device_state)
qed

text \<open>
  Claim C9 (the code differs). Inside a frame an End packet leaves the device as it is,
  with the frame still open, while a FrameEnd packet closes the frame.
\<close>

theorem end_packet_leaves_frame_open:
  "frame_began framed_demo_device \<and>
   data_feed_in (demo_env 6000) framed_demo_device (sr_device framed_demo_device) SR_DF_END
     = Inr framed_demo_device \<and>
   data_feed_in (demo_env 6000) framed_demo_device (sr_device framed_demo_device) SR_DF_FRAME_END
     = Inr (framed_demo_device\<lparr>frame_began := False\<rparr>) \<and>
   frame_began (framed_demo_device\<lparr>frame_began := False\<rparr>) \<noteq> frame_began framed_demo_device"
  by (simp add: data_feed_in_def feed_in_frame_end_def framed_demo_device_def)

subsection \<open>Meta packets\<close>

lemma find_nonempty_None:
  "find (\<lambda>k. k \<noteq> []) ks = None \<Longrightarrow> distinct ks \<Longrightarrow> ks = [] \<or> ks = [[]]"
proof (induction ks)
  case Nil
  then show ?case by simp
next
  case (Cons k ks)
  then have "k = []" and "find (\<lambda>k. k \<noteq> []) ks = None" by (auto split: if_splits)
  with Cons show ?case by auto
qed

lemma meta_loop_skip:
  "1 < n \<Longrightarrow> distinct (map fst cm) \<Longrightarrow> find (\<lambda>k. k \<noteq> []) (map fst cm) = Some g \<Longrightarrow>
   feed_in_meta_loop n m cm = deliver_meta m (Some g) cm"
proof (induction cm)
  case Nil
  then show ?case by simp
next
  case (Cons kc cm)
  obtain k c where kc: "kc = (k, c)" by (cases kc)
  show ?case
  proof (cases "k = []")
    case True
    with Cons.prems kc have f: "find (\<lambda>k. k \<noteq> []) (map fst cm) = Some g" by simp
    then have "g \<noteq> []" by (auto simp: find_Some_iff)
    with Cons.IH[OF Cons.prems(1) _ f] Cons.prems(1,2) kc True show ?thesis
      by (simp add: deliver_meta_def)
  next
    case False
    with Cons.prems kc have g: "g = k" by simp
    have "\<forall>x\<in>set cm. fst x \<noteq> k" using Cons.prems(2) kc by auto
    then have "map (\<lambda>(k', c). (k', if Some k' = Some k then Configurable_feed_in_meta m c else c)) cm = cm"
      by (induction cm) auto
    with False kc g show ?thesis by (simp add: deliver_meta_def)
  qed
qed

lemma meta_loop_target:
  assumes "distinct (map fst cm)"
  shows "feed_in_meta_loop (length cm) m cm = deliver_meta m (spec_meta_target cm) cm"
proof (cases "find (\<lambda>k. k \<noteq> []) (map fst cm)")
  case None
  from find_nonempty_None[OF None assms] have "cm = [] \<or> (\<exists>c. cm = [([], c)])"
    by (cases cm) auto
  then show ?thesis
    by (auto simp: spec_meta_target_def deliver_meta_def)
next
  case (Some g)
  show ?thesis
  proof (cases "1 < length cm")
    case True
    from meta_loop_skip[OF True assms Some] Some show ?thesis
      by (simp add: spec_meta_target_def)
  next
    case False
    with Some obtain c where "cm = [(g, c)]" "g \<noteq> []"
      by (cases cm) (auto split: if_splits)
    then show ?thesis by (simp add: spec_meta_target_def deliver_meta_def)
  qed
qed

lemma recipients_deliver:
  "distinct (map fst cm) \<Longrightarrow>
   meta_recipients cm (deliver_meta m t cm) =
     (case t of None \<Rightarrow> [] | Some g \<Rightarrow> if g \<in> fst ` set cm then [g] else [])"
proof (induction cm)
  case Nil
  then show ?case by (simp add: meta_recipients_def deliver_meta_def split: option.splits)
next
  case (Cons kc cm)
  obtain k c where kc: "kc = (k, c)" by (cases kc)
  have ch: "Configurable_feed_in_meta m c \<noteq> c"
  proof
    assume "Configurable_feed_in_meta m c = c"
    then have "cfg_meta_received (Configurable_feed_in_meta m c) = cfg_meta_received c" by simp
    then show False by (simp add: Configurable_feed_in_meta_def)
  qed
  from Cons have IH: "meta_recipients cm (deliver_meta m t cm) =
     (case t of None \<Rightarrow> [] | Some g \<Rightarrow> if g \<in> fst ` set cm then [g] else [])" by simp
  have step: "meta_recipients (kc # cm) (deliver_meta m t (kc # cm)) =
      (if Some k = t then [k] else []) @ meta_recipients cm (deliver_meta m t cm)"
    using ch kc by (simp add: meta_recipients_def deliver_meta_def)
  from Cons.prems kc have "k \<notin> fst ` set cm" by auto
  with step IH kc show ?case by (auto split: option.splits)
qed

lemma target_cases:
  assumes "distinct (map fst cm)"
  shows "(spec_meta_target cm = None \<longleftrightarrow> cm = [])"
    and "spec_meta_target cm = Some g \<Longrightarrow> g \<in> fst ` set cm"
proof -
  show "(spec_meta_target cm = None \<longleftrightarrow> cm = [])"
  proof (cases "find (\<lambda>k. k \<noteq> []) (map fst cm)")
    case None
    from find_nonempty_None[OF None assms] have "cm = [] \<or> length cm = 1"
      by (cases cm) auto
    with None show ?thesis by (auto simp: spec_meta_target_def)
  next
    case (Some g)
    then have "cm \<noteq> []" by auto
    with Some show ?thesis by (simp add: spec_meta_target_def)
  qed
  show "g \<in> fst ` set cm" if t: "spec_meta_target cm = Some g"
  proof (cases "find (\<lambda>k. k \<noteq> []) (map fst cm)")
    case None
    with t have l: "length cm = 1" and g: "g = []"
      by (auto simp: spec_meta_target_def split: if_splits)
    from find_nonempty_None[OF None assms] l have "map fst cm = [[]]" by auto
    with g show ?thesis by (metis list.set_intros(1) list.set_map)
  next
    case (Some h)
    with t have "h = g" by (simp add: spec_meta_target_def)
    with Some have "g \<in> set (map fst cm)" by (auto simp: find_Some_iff)
    then show ?thesis by simp
  qed
qed

text \<open>
  Claim C4, amended. A Meta packet of the device is handed to the configurable the spec
  names (the first channel-group configurable, or the device-level one when it is alone)
  and to no other; with an empty registry it is handed to none.
\<close>

theorem meta_forwarded_to_at_most_one:
  assumes "distinct (map fst (configurable_map d))"
  shows "\<exists>d'. data_feed_in e d (sr_device d) (SR_DF_META m) = Inr d' \<and>
     configurable_map d' =
       deliver_meta m (spec_meta_target (configurable_map d)) (configurable_map d) \<and>
     meta_recipients (configurable_map d) (configurable_map d') =
       (case spec_meta_target (configurable_map d) of None \<Rightarrow> [] | Some g \<Rightarrow> [g]) \<and>
     (spec_meta_target (configurable_map d) = None \<longleftrightarrow> configurable_map d = [])"
proof -
  let ?cm = "configurable_map d"
  have run: "data_feed_in e d (sr_device d) (SR_DF_META m) = Inr (feed_in_meta d m)"
    by (simp add: data_feed_in_def)
  have cm': "configurable_map (feed_in_meta d m) = deliver_meta m (spec_meta_target ?cm) ?cm"
    using meta_loop_target[OF assms] by (simp add: feed_in_meta_def)
  have "meta_recipients ?cm (deliver_meta m (spec_meta_target ?cm) ?cm) =
       (case spec_meta_target ?cm of None \<Rightarrow> [] | Some g \<Rightarrow> [g])"
    using recipients_deliver[OF assms, of m "spec_meta_target ?cm"] target_cases(2)[OF assms]
    by (auto split: option.splits)
  with run cm' target_cases(1)[OF assms] show ?thesis by simp
qed

theorem meta_forwarded_to_at_most_one_witness:
  "distinct (map fst (configurable_map cfg_device)) \<and>
   (\<exists>d'. data_feed_in (demo_env 2000) cfg_device (sr_device cfg_device) (SR_DF_META demo_meta)
           = Inr d' \<and>
      meta_recipients (configurable_map cfg_device) (configurable_map d') = [''CG1''] \<and>
      map (cfg_meta_received \<circ> snd) (configurable_map d') = [[], [demo_meta], []])"
proof -
  have dis: "distinct (map fst (configurable_map cfg_device))" by (simp add: cfg_device_def)
  have t: "spec_meta_target (configurable_map cfg_device) = Some ''CG1''"
    by (simp add: cfg_device_def spec_meta_target_def)
  from meta_forwarded_to_at_most_one[OF dis, of "demo_env 2000" demo_meta] obtain d' where
    r: "data_feed_in (demo_env 2000) cfg_device (sr_device cfg_device) (SR_DF_META demo_meta)
           = Inr d'"
    and cm: "configurable_map d' = deliver_meta demo_meta
        (spec_meta_target (configurable_map cfg_device)) (configurable_map cfg_device)"
    and rc: "meta_recipients (configurable_map cfg_device) (configurable_map d') =
       (case spec_meta_target (configurable_map cfg_device) of None \<Rightarrow> [] | Some g \<Rightarrow> [g])"
    by blast
  from rc t have 1: "meta_recipients (configurable_map cfg_device) (configurable_map d') = [''CG1'']"
    by simp
  from cm t have 2: "map (cfg_meta_received \<circ> snd) (configurable_map d') = [[], [demo_meta], []]"
    by (simp add: cfg_device_def deliver_meta_def Configurable_feed_in_meta_def)
  from dis r 1 2 show ?thesis by (intro conjI exI[of _ d'])
qed

theorem meta_without_configurable_counterexample:
  "configurable_map demo_device = [] \<and>
   data_feed_in (demo_env 2000) demo_device (sr_device demo_device) (SR_DF_META demo_meta)
     = Inr demo_device \<and>
   length (meta_recipients (configurable_map demo_device) (configurable_map demo_device)) \<noteq> 1"
proof -
  have c: "configurable_map demo_device = []" by (simp add: demo_defs)
  then have "feed_in_meta demo_device demo_meta = demo_device"
    by (simp add: feed_in_meta_def)
  with c show ?thesis by (simp add: data_feed_in_def meta_recipients_def)
qed

subsection \<open>Channel registry\<close>

lemma add_channel_fields:
  "channel_count (add_channel d p g) = channel_count d"
  "sr_device (add_channel d p g) = sr_device d"
  "sr_channel_map (add_channel d p g) = sr_channel_map d"
  by (simp_all add: add_channel_def Let_def)

lemma add_channel_emits:
  "channel_added_emitted (add_channel d p g) =
     channel_added_emitted d @ [emission_of (add_channel d p g) p]"
  by (auto simp: add_channel_def Let_def emission_of_def)

lemma add_channel_names:
  "channel_name_map (add_channel d p g) =
     map_insert (channel_name_map d) (ch_name (channel_store d p)) p"
  by (auto simp: add_channel_def Let_def map_insert_def)

lemma add_channel_groups:
  "map_index (channel_group_name_map (add_channel d p g)) h =
     (if h = g then map_index (channel_group_name_map d) g @ [p]
      else map_index (channel_group_name_map d) h)"
  by (simp add: add_channel_def Let_def map_insert_def map_index_def)

lemma add_channel_store:
  "ch_name (channel_store (add_channel d p g) q) = ch_name (channel_store d q)"
  "channel_group_names (channel_store (add_channel d p g) q) =
     (if q = p then insert g (channel_group_names (channel_store d q))
      else channel_group_names (channel_store d q))"
  by (auto simp: add_channel_def Let_def add_channel_group_name_def)

lemma add_sr_channel_found:
  "channel_name_map d (sr_channel_name c) = Some p \<Longrightarrow>
     add_sr_channel d c g = (p, add_channel d p g)"
  by (simp add: add_sr_channel_def)

lemma add_sr_channel_new:
  "channel_name_map d (sr_channel_name c) = None \<Longrightarrow>
     add_sr_channel d c g =
       (channel_count d,
        add_channel (d\<lparr>channel_store := (channel_store d)
                        (channel_count d := HardwareChannel c {g} (aquisition_start_timestamp d)),
                      channel_count := Suc (channel_count d),
                      sr_channel_map := map_insert (sr_channel_map d) c (channel_count d)\<rparr>)
          (channel_count d) g)"
  by (simp add: add_sr_channel_def Let_def)

lemma add_sr_channel_step:
  assumes inv: "registry_inv d"
  shows "registry_inv (snd (add_sr_channel d c g))"
    and "registry_grows d (snd (add_sr_channel d c g))"
    and "registered (snd (add_sr_channel d c g)) (sr_channel_name c) g (fst (add_sr_channel d c g))"
    and "channel_added_emitted (snd (add_sr_channel d c g)) =
           channel_added_emitted d @
           [emission_of (snd (add_sr_channel d c g)) (fst (add_sr_channel d c g))]"
proof -
  let ?r = "add_sr_channel d c g"
  have "registry_inv (snd ?r) \<and> registry_grows d (snd ?r) \<and>
        registered (snd ?r) (sr_channel_name c) g (fst ?r) \<and>
        channel_added_emitted (snd ?r) =
          channel_added_emitted d @ [emission_of (snd ?r) (fst ?r)]"
  proof (cases "channel_name_map d (sr_channel_name c)")
    case (Some p)
    from inv Some have p: "p < channel_count d" "ch_name (channel_store d p) = sr_channel_name c"
      by (auto simp: registry_inv_def)
    have r: "?r = (p, add_channel d p g)" using Some by (rule add_sr_channel_found)
    have nm: "channel_name_map (add_channel d p g) = channel_name_map d"
      using Some p by (simp add: add_channel_names map_insert_def)
    have 1: "registry_inv (add_channel d p g)"
      using inv by (simp add: registry_inv_def nm add_channel_fields add_channel_store)
    have 2: "registry_grows d (add_channel d p g)"
      by (auto simp: registry_grows_def nm add_channel_fields add_channel_store add_channel_groups)
    have 3: "registered (add_channel d p g) (sr_channel_name c) g p"
      using Some by (simp add: registered_def nm add_channel_groups add_channel_store)
    from 1 2 3 r show ?thesis by (simp add: add_channel_emits)
  next
    case None
    let ?p = "channel_count d"
    let ?d1 = "d\<lparr>channel_store := (channel_store d)
                        (?p := HardwareChannel c {g} (aquisition_start_timestamp d)),
                  channel_count := Suc ?p,
                  sr_channel_map := map_insert (sr_channel_map d) c ?p\<rparr>"
    have r: "?r = (?p, add_channel ?d1 ?p g)" using None by (rule add_sr_channel_new)
    have nm: "channel_name_map (add_channel ?d1 ?p g) =
        (channel_name_map d)(sr_channel_name c \<mapsto> ?p)"
      using None by (simp add: add_channel_names map_insert_def HardwareChannel_def)
    have names: "ch_name (channel_store (add_channel ?d1 ?p g) q) =
        (if q = ?p then sr_channel_name c else ch_name (channel_store d q))" for q
      by (simp add: add_channel_store HardwareChannel_def)
    have other: "ch_name (channel_store d q) \<noteq> sr_channel_name c" if "q < ?p" for q
    proof
      assume "ch_name (channel_store d q) = sr_channel_name c"
      moreover from inv that have "channel_name_map d (ch_name (channel_store d q)) = Some q"
        by (simp add: registry_inv_def)
      ultimately show False using None by simp
    qed
    have 1: "registry_inv (add_channel ?d1 ?p g)"
      unfolding registry_inv_def
    proof (intro conjI allI impI)
      fix n q assume "channel_name_map (add_channel ?d1 ?p g) n = Some q"
      then have "(n = sr_channel_name c \<and> q = ?p) \<or>
          (n \<noteq> sr_channel_name c \<and> channel_name_map d n = Some q)"
        by (auto simp: nm split: if_splits)
      then show "q < channel_count (add_channel ?d1 ?p g)"
        using inv by (auto simp: add_channel_fields registry_inv_def less_Suc_eq)
      from \<open>(n = sr_channel_name c \<and> q = ?p) \<or>
          (n \<noteq> sr_channel_name c \<and> channel_name_map d n = Some q)\<close>
      show "ch_name (channel_store (add_channel ?d1 ?p g) q) = n"
      proof
        assume "n = sr_channel_name c \<and> q = ?p"
        then show ?thesis by (simp add: names)
      next
        assume a: "n \<noteq> sr_channel_name c \<and> channel_name_map d n = Some q"
        with inv have "q < ?p" "ch_name (channel_store d q) = n"
          by (auto simp: registry_inv_def)
        then show ?thesis by (simp add: names)
      qed
    next
      fix q assume "q < channel_count (add_channel ?d1 ?p g)"
      then have "q = ?p \<or> q < ?p" by (auto simp: add_channel_fields)
      then show "channel_name_map (add_channel ?d1 ?p g)
          (ch_name (channel_store (add_channel ?d1 ?p g) q)) = Some q"
      proof
        assume "q = ?p"
        then show ?thesis by (simp add: nm names)
      next
        assume q: "q < ?p"
        with inv have "channel_name_map d (ch_name (channel_store d q)) = Some q"
          by (simp add: registry_inv_def)
        with q other[OF q] show ?thesis by (simp add: nm names)
      qed
    qed
    have 2: "registry_grows d (add_channel ?d1 ?p g)"
      unfolding registry_grows_def
    proof (intro conjI allI impI)
      show "sr_device (add_channel ?d1 ?p g) = sr_device d" by (simp add: add_channel_fields)
      show "channel_count d \<le> channel_count (add_channel ?d1 ?p g)"
        by (simp add: add_channel_fields)
    next
      fix n q assume "channel_name_map d n = Some q"
      with None show "channel_name_map (add_channel ?d1 ?p g) n = Some q"
        by (auto simp: nm)
    next
      fix h show "set (map_index (channel_group_name_map d) h)
            \<subseteq> set (map_index (channel_group_name_map (add_channel ?d1 ?p g)) h)"
        by (auto simp: add_channel_groups)
    next
      fix q assume "q < channel_count d"
      then show "channel_group_names (channel_store d q)
            \<subseteq> channel_group_names (channel_store (add_channel ?d1 ?p g) q)"
        by (simp add: add_channel_store)
    qed
    have 3: "registered (add_channel ?d1 ?p g) (sr_channel_name c) g ?p"
      by (simp add: registered_def nm add_channel_groups add_channel_store)
    from 1 2 3 r show ?thesis by (simp add: add_channel_emits)
  qed
  then show "registry_inv (snd ?r)" "registry_grows d (snd ?r)"
    "registered (snd ?r) (sr_channel_name c) g (fst ?r)"
    "channel_added_emitted (snd ?r) = channel_added_emitted d @ [emission_of (snd ?r) (fst ?r)]"
    by simp_all
qed

lemma registry_grows_refl: "registry_grows d d"
  by (simp add: registry_grows_def)

lemma registry_grows_trans:
  assumes ab: "registry_grows a b" and bc: "registry_grows b c"
  shows "registry_grows a c"
  unfolding registry_grows_def
proof (intro conjI allI impI)
  show "sr_device c = sr_device a" using ab bc by (simp add: registry_grows_def)
  show "channel_count a \<le> channel_count c" using ab bc by (simp add: registry_grows_def)
next
  fix n p assume "channel_name_map a n = Some p"
  with ab have "channel_name_map b n = Some p" by (simp add: registry_grows_def)
  with bc show "channel_name_map c n = Some p" by (simp add: registry_grows_def)
next
  fix g
  from ab have "set (map_index (channel_group_name_map a) g)
      \<subseteq> set (map_index (channel_group_name_map b) g)" by (simp add: registry_grows_def)
  moreover from bc have "set (map_index (channel_group_name_map b) g)
      \<subseteq> set (map_index (channel_group_name_map c) g)" by (simp add: registry_grows_def)
  ultimately show "set (map_index (channel_group_name_map a) g)
      \<subseteq> set (map_index (channel_group_name_map c) g)" by (rule subset_trans)
next
  fix p assume p: "p < channel_count a"
  with ab have 1: "channel_group_names (channel_store a p)
      \<subseteq> channel_group_names (channel_store b p)" by (simp add: registry_grows_def)
  from ab p have "p < channel_count b" by (simp add: registry_grows_def)
  with bc have "channel_group_names (channel_store b p)
      \<subseteq> channel_group_names (channel_store c p)" by (simp add: registry_grows_def)
  with 1 show "channel_group_names (channel_store a p)
      \<subseteq> channel_group_names (channel_store c p)" by (rule subset_trans)
qed

lemma registered_grows:
  assumes "registry_inv d" "registered d n g p" "registry_grows d d'"
  shows "registered d' n g p"
proof -
  from assms(2) have nm: "channel_name_map d n = Some p"
    and gr: "p \<in> set (map_index (channel_group_name_map d) g)"
    and mem: "g \<in> channel_group_names (channel_store d p)"
    by (simp_all add: registered_def)
  from assms(1) nm have p: "p < channel_count d" by (auto simp: registry_inv_def)
  from assms(3) nm have 1: "channel_name_map d' n = Some p" by (simp add: registry_grows_def)
  from assms(3) have "set (map_index (channel_group_name_map d) g)
      \<subseteq> set (map_index (channel_group_name_map d') g)" by (simp add: registry_grows_def)
  with gr have 2: "p \<in> set (map_index (channel_group_name_map d') g)" by blast
  from assms(3) p have "channel_group_names (channel_store d p)
      \<subseteq> channel_group_names (channel_store d' p)" by (simp add: registry_grows_def)
  with mem have 3: "g \<in> channel_group_names (channel_store d' p)" by blast
  from 1 2 3 show ?thesis by (simp add: registered_def)
qed

lemma announces_grows:
  "registry_grows d d' \<Longrightarrow> announces d x em \<Longrightarrow> announces d' x em"
  by (simp add: announces_def registry_grows_def)

lemma add_sr_channel_announces:
  assumes "registry_inv d"
  shows "announces (snd (add_sr_channel d c g)) (c, g)
           (emission_of (snd (add_sr_channel d c g)) (fst (add_sr_channel d c g)))"
proof -
  let ?p = "fst (add_sr_channel d c g)"
  let ?d1 = "snd (add_sr_channel d c g)"
  note st = add_sr_channel_step[OF assms, of c g]
  from st(3) have nm: "channel_name_map ?d1 (sr_channel_name c) = Some ?p"
    and gr: "?p \<in> set (map_index (channel_group_name_map ?d1) g)"
    and mem: "g \<in> channel_group_names (channel_store ?d1 ?p)"
    by (simp_all add: registered_def)
  from st(1) nm have "ch_name (channel_store ?d1 ?p) = sr_channel_name c"
    by (auto simp: registry_inv_def)
  with nm gr mem show ?thesis
    by (simp add: announces_def emitted_registered_def emission_of_def)
qed

lemma init_group_channels_step:
  assumes "registry_inv d"
  shows "registry_inv (init_group_channels d g cs) \<and>
     registry_grows d (init_group_channels d g cs) \<and>
     (\<forall>c\<in>set cs. \<exists>p. registered (init_group_channels d g cs) (sr_channel_name c) g p) \<and>
     (\<exists>new. channel_added_emitted (init_group_channels d g cs) = channel_added_emitted d @ new \<and>
        list_all2 (announces (init_group_channels d g cs)) (map (\<lambda>c. (c, g)) cs) new)"
  using assms
proof (induction cs arbitrary: d)
  case Nil
  then show ?case by (simp add: registry_grows_refl)
next
  case (Cons c cs)
  let ?p = "fst (add_sr_channel d c g)"
  let ?d1 = "snd (add_sr_channel d c g)"
  let ?d' = "init_group_channels ?d1 g cs"
  note st = add_sr_channel_step[OF Cons.prems, of c g]
  from Cons.IH[OF st(1)] obtain new where inv': "registry_inv ?d'"
    and gr': "registry_grows ?d1 ?d'"
    and reg': "\<forall>c\<in>set cs. \<exists>p. registered ?d' (sr_channel_name c) g p"
    and em': "channel_added_emitted ?d' = channel_added_emitted ?d1 @ new"
    and an': "list_all2 (announces ?d') (map (\<lambda>c. (c, g)) cs) new"
    by blast
  from registered_grows[OF st(1) st(3) gr'] have regc: "registered ?d' (sr_channel_name c) g ?p" .
  from announces_grows[OF gr' add_sr_channel_announces[OF Cons.prems, of c g]]
  have an0: "announces ?d' (c, g) (emission_of ?d1 ?p)" .
  have 1: "registry_grows d ?d'" using st(2) gr' by (rule registry_grows_trans)
  have 2: "\<forall>x\<in>set (c # cs). \<exists>p. registered ?d' (sr_channel_name x) g p"
    using regc reg' by auto
  have 3: "channel_added_emitted ?d' = channel_added_emitted d @ (emission_of ?d1 ?p # new)"
    using em' st(4) by simp
  have 4: "list_all2 (announces ?d') (map (\<lambda>c. (c, g)) (c # cs)) (emission_of ?d1 ?p # new)"
    using an0 an' by simp
  from 3 4 have "\<exists>new. channel_added_emitted ?d' = channel_added_emitted d @ new \<and>
        list_all2 (announces ?d') (map (\<lambda>c. (c, g)) (c # cs)) new"
    by blast
  with inv' 1 2 show ?case by simp
qed

lemma init_channel_groups_step:
  assumes "registry_inv d"
  shows "registry_inv (init_channel_groups d gs) \<and>
     registry_grows d (init_channel_groups d gs) \<and>
     (\<forall>(k, cg)\<in>set gs. \<forall>c\<in>set (sr_cg_channels cg).
         \<exists>p. registered (init_channel_groups d gs) (sr_channel_name c) (sr_cg_name cg) p) \<and>
     (\<exists>new. channel_added_emitted (init_channel_groups d gs) = channel_added_emitted d @ new \<and>
        list_all2 (announces (init_channel_groups d gs))
          (concat (map (\<lambda>(k, cg). map (\<lambda>c. (c, sr_cg_name cg)) (sr_cg_channels cg)) gs)) new)"
  using assms
proof (induction gs arbitrary: d)
  case Nil
  then show ?case by (simp add: registry_grows_refl)
next
  case (Cons kg gs)
  obtain k cg where kg: "kg = (k, cg)" by (cases kg)
  let ?d1 = "init_group_channels d (sr_cg_name cg) (sr_cg_channels cg)"
  let ?d' = "init_channel_groups ?d1 gs"
  let ?rest = "concat (map (\<lambda>(k, cg). map (\<lambda>c. (c, sr_cg_name cg)) (sr_cg_channels cg)) gs)"
  from init_group_channels_step[OF Cons.prems, of "sr_cg_name cg" "sr_cg_channels cg"]
  obtain new1 where inv1: "registry_inv ?d1" and gr1: "registry_grows d ?d1"
    and reg1: "\<forall>c\<in>set (sr_cg_channels cg). \<exists>p. registered ?d1 (sr_channel_name c) (sr_cg_name cg) p"
    and em1: "channel_added_emitted ?d1 = channel_added_emitted d @ new1"
    and an1: "list_all2 (announces ?d1) (map (\<lambda>c. (c, sr_cg_name cg)) (sr_cg_channels cg)) new1"
    by blast
  from Cons.IH[OF inv1] obtain new2 where inv': "registry_inv ?d'"
    and gr': "registry_grows ?d1 ?d'"
    and reg': "\<forall>(k, cg)\<in>set gs. \<forall>c\<in>set (sr_cg_channels cg).
         \<exists>p. registered ?d' (sr_channel_name c) (sr_cg_name cg) p"
    and em': "channel_added_emitted ?d' = channel_added_emitted ?d1 @ new2"
    and an': "list_all2 (announces ?d') ?rest new2"
    by blast
  have regc: "\<forall>c\<in>set (sr_cg_channels cg). \<exists>p. registered ?d' (sr_channel_name c) (sr_cg_name cg) p"
    using reg1 registered_grows[OF inv1 _ gr'] by blast
  have an1': "list_all2 (announces ?d') (map (\<lambda>c. (c, sr_cg_name cg)) (sr_cg_channels cg)) new1"
    using an1 announces_grows[OF gr'] by (rule list_all2_mono)
  have 1: "registry_grows d ?d'" using gr1 gr' by (rule registry_grows_trans)
  have 2: "\<forall>(k, cg)\<in>set (kg # gs). \<forall>c\<in>set (sr_cg_channels cg).
         \<exists>p. registered ?d' (sr_channel_name c) (sr_cg_name cg) p"
    using regc reg' kg by simp
  have 3: "channel_added_emitted ?d' = channel_added_emitted d @ (new1 @ new2)"
    using em' em1 by simp
  have 4: "list_all2 (announces ?d')
      (concat (map (\<lambda>(k, cg). map (\<lambda>c. (c, sr_cg_name cg)) (sr_cg_channels cg)) (kg # gs)))
      (new1 @ new2)"
    using list_all2_appendI[OF an1' an'] kg by simp
  from 3 4 have "\<exists>new. channel_added_emitted ?d' = channel_added_emitted d @ new \<and>
      list_all2 (announces ?d')
        (concat (map (\<lambda>(k, cg). map (\<lambda>c. (c, sr_cg_name cg)) (sr_cg_channels cg)) (kg # gs))) new"
    by blast
  with inv' 1 2 kg show ?case by simp
qed

lemma init_ungrouped_channels_step:
  assumes "registry_inv d"
  shows "registry_inv (init_ungrouped_channels d cs) \<and>
     registry_grows d (init_ungrouped_channels d cs) \<and>
     (\<exists>new. channel_added_emitted (init_ungrouped_channels d cs) = channel_added_emitted d @ new \<and>
        list_all2 (announces (init_ungrouped_channels d cs))
          (map (\<lambda>c. (c, [])) (ungrouped_added d cs)) new)"
  using assms
proof (induction cs arbitrary: d)
  case Nil
  then show ?case by (simp add: registry_grows_refl)
next
  case (Cons c cs)
  show ?case
  proof (cases "sr_channel_map d c \<noteq> None")
    case True
    with Cons.IH[OF Cons.prems] show ?thesis by simp
  next
    case False
    let ?p = "fst (add_sr_channel d c [])"
    let ?d1 = "snd (add_sr_channel d c [])"
    let ?d' = "init_ungrouped_channels ?d1 cs"
    note st = add_sr_channel_step[OF Cons.prems, of c "[]"]
    from Cons.IH[OF st(1)] obtain new where inv': "registry_inv ?d'"
      and gr': "registry_grows ?d1 ?d'"
      and em': "channel_added_emitted ?d' = channel_added_emitted ?d1 @ new"
      and an': "list_all2 (announces ?d') (map (\<lambda>c. (c, [])) (ungrouped_added ?d1 cs)) new"
      by blast
    from announces_grows[OF gr' add_sr_channel_announces[OF Cons.prems, of c "[]"]]
    have an0: "announces ?d' (c, []) (emission_of ?d1 ?p)" .
    have 1: "registry_grows d ?d'" using st(2) gr' by (rule registry_grows_trans)
    have 3: "channel_added_emitted ?d' = channel_added_emitted d @ (emission_of ?d1 ?p # new)"
      using em' st(4) by simp
    have 4: "list_all2 (announces ?d')
        (map (\<lambda>c. (c, [])) (c # ungrouped_added ?d1 cs)) (emission_of ?d1 ?p # new)"
      using an0 an' by simp
    from 3 4 have "\<exists>new. channel_added_emitted ?d' = channel_added_emitted d @ new \<and>
        list_all2 (announces ?d') (map (\<lambda>c. (c, [])) (c # ungrouped_added ?d1 cs)) new"
      by blast
    with inv' 1 False show ?thesis by simp
  qed
qed

lemma filter_eq_upt: "filter (\<lambda>q. q = p) [0..<N] = (if p < N then [p] else [])"
  by (induction N) auto

lemma channels_named_unique:
  assumes "registry_inv d" "channel_name_map d n = Some p"
  shows "channels_named d n = [p]"
proof -
  from assms have p: "p < channel_count d" and pn: "ch_name (channel_store d p) = n"
    by (auto simp: registry_inv_def)
  have "filter (\<lambda>q. ch_name (channel_store d q) = n) [0..<channel_count d] =
        filter (\<lambda>q. q = p) [0..<channel_count d]"
  proof (rule filter_cong[OF refl])
    fix q assume "q \<in> set [0..<channel_count d]"
    then have q: "q < channel_count d" by simp
    with assms(1) have qn: "channel_name_map d (ch_name (channel_store d q)) = Some q"
      by (simp add: registry_inv_def)
    show "(ch_name (channel_store d q) = n) = (q = p)"
    proof
      assume "ch_name (channel_store d q) = n"
      with qn have "channel_name_map d n = Some q" by simp
      with assms(2) show "q = p" by simp
    next
      assume "q = p"
      then show "ch_name (channel_store d q) = n" using pn by simp
    qed
  qed
  then have "channels_named d n = filter (\<lambda>q. q = p) [0..<channel_count d]"
    by (simp only: channels_named_def)
  with p show ?thesis by (simp add: filter_eq_upt)
qed

lemma init_channels_unfold:
  "init_channels d =
     init_ungrouped_channels (init_channel_groups d (sr_dev_channel_groups (sr_device d)))
       (sr_dev_channels (sr_device (init_channel_groups d (sr_dev_channel_groups (sr_device d)))))"
  by (cases "sr_dev_channel_groups (sr_device d)") (simp_all add: init_channels_def Let_def)

lemma discoveries_unfold:
  "discoveries d =
     concat (map (\<lambda>(k, cg). map (\<lambda>c. (c, sr_cg_name cg)) (sr_cg_channels cg))
               (sr_dev_channel_groups (sr_device d))) @
     map (\<lambda>c. (c, []))
       (ungrouped_added (init_channel_groups d (sr_dev_channel_groups (sr_device d)))
          (sr_dev_channels (sr_device (init_channel_groups d (sr_dev_channel_groups (sr_device d))))))"
  by (cases "sr_dev_channel_groups (sr_device d)") (simp_all add: discoveries_def Let_def)

text \<open>
  Claim C5. Starting from a consistent registry (a new device has one), when the driver
  reports a channel name \<open>n\<close> in two channel groups, \<open>init_channels\<close> leaves exactly one
  Channel object with that name; it is the one entered under \<open>n\<close>, it is in the group
  map under both group names and it holds both memberships.
\<close>

theorem channel_identity_stability:
  assumes "registry_inv d"
    and "(k1, cg1) \<in> set (sr_dev_channel_groups (sr_device d))" and "c1 \<in> set (sr_cg_channels cg1)"
    and "(k2, cg2) \<in> set (sr_dev_channel_groups (sr_device d))" and "c2 \<in> set (sr_cg_channels cg2)"
    and "sr_channel_name c1 = n" and "sr_channel_name c2 = n"
  shows "\<exists>p. channels_named (init_channels d) n = [p] \<and>
     channel_name_map (init_channels d) n = Some p \<and>
     p \<in> set (map_index (channel_group_name_map (init_channels d)) (sr_cg_name cg1)) \<and>
     p \<in> set (map_index (channel_group_name_map (init_channels d)) (sr_cg_name cg2)) \<and>
     sr_cg_name cg1 \<in> channel_group_names (channel_store (init_channels d) p) \<and>
     sr_cg_name cg2 \<in> channel_group_names (channel_store (init_channels d) p)"
proof -
  let ?gs = "sr_dev_channel_groups (sr_device d)"
  let ?d1 = "init_channel_groups d ?gs"
  let ?d' = "init_channels d"
  from init_channel_groups_step[OF assms(1), of ?gs]
  have inv1: "registry_inv ?d1"
    and reg: "\<forall>(k, cg)\<in>set ?gs. \<forall>c\<in>set (sr_cg_channels cg).
         \<exists>p. registered ?d1 (sr_channel_name c) (sr_cg_name cg) p"
    by simp_all
  from init_ungrouped_channels_step[OF inv1, of "sr_dev_channels (sr_device ?d1)"]
  have inv': "registry_inv ?d'" and gr: "registry_grows ?d1 ?d'"
    by (simp_all add: init_channels_unfold[symmetric])
  from reg assms(2,3,6) obtain p where p1: "registered ?d1 n (sr_cg_name cg1) p" by blast
  from reg assms(4,5,7) obtain q where p2: "registered ?d1 n (sr_cg_name cg2) q" by blast
  from p1 p2 have "q = p" by (simp add: registered_def)
  with p2 have p2': "registered ?d1 n (sr_cg_name cg2) p" by simp
  from registered_grows[OF inv1 p1 gr] have r1: "registered ?d' n (sr_cg_name cg1) p" .
  from registered_grows[OF inv1 p2' gr] have r2: "registered ?d' n (sr_cg_name cg2) p" .
  from r1 have nm: "channel_name_map ?d' n = Some p" by (simp add: registered_def)
  from channels_named_unique[OF inv' nm] r1 r2 show ?thesis
    by (simp add: registered_def)
qed

text \<open>
  Claim C6, amended. \<open>init_channels\<close> emits \<open>channel_added\<close> exactly once for every call
  of \<open>add_sr_channel\<close>, in the order of the calls: a channel reported in \<open>k\<close> groups is
  announced \<open>k\<close> times. At the moment of each emission the announced channel is fully
  registered: a slot finds the object under the reported name, in the vector of the
  call's group and holding that membership. Every call of \<open>add_channel\<close> emits exactly
  once, as its last step, when the channel is in the group's vector with the membership
  and, unless another object holds the name, is entered under its name.
\<close>

theorem channel_added_once_per_discovery:
  "(registry_inv d \<longrightarrow>
      (\<exists>new. channel_added_emitted (init_channels d) = channel_added_emitted d @ new \<and>
         list_all2 (announces (init_channels d)) (discoveries d) new)) \<and>
   (\<exists>em. channel_added_emitted (add_channel d0 p g) = channel_added_emitted d0 @ [em] \<and>
      em_channel em = p \<and>
      p \<in> set (map_index (em_channel_group_name_map em) g) \<and>
      g \<in> channel_group_names (em_channel_store em p) \<and>
      (channel_name_map d0 (ch_name (channel_store d0 p)) = None \<or>
       channel_name_map d0 (ch_name (channel_store d0 p)) = Some p \<longrightarrow>
         emitted_registered em (ch_name (channel_store d0 p)) g))"
proof (intro conjI impI)
  assume inv: "registry_inv d"
  let ?gs = "sr_dev_channel_groups (sr_device d)"
  let ?d1 = "init_channel_groups d ?gs"
  let ?d' = "init_channels d"
  from init_channel_groups_step[OF inv, of ?gs]
  obtain new1 where inv1: "registry_inv ?d1"
    and em1: "channel_added_emitted ?d1 = channel_added_emitted d @ new1"
    and an1: "list_all2 (announces ?d1)
        (concat (map (\<lambda>(k, cg). map (\<lambda>c. (c, sr_cg_name cg)) (sr_cg_channels cg)) ?gs)) new1"
    by blast
  from init_ungrouped_channels_step[OF inv1, of "sr_dev_channels (sr_device ?d1)"]
  obtain new2 where gr: "registry_grows ?d1 ?d'"
    and em2: "channel_added_emitted ?d' = channel_added_emitted ?d1 @ new2"
    and an2: "list_all2 (announces ?d')
        (map (\<lambda>c. (c, [])) (ungrouped_added ?d1 (sr_dev_channels (sr_device ?d1)))) new2"
    by (auto simp: init_channels_unfold[symmetric])
  have an1': "list_all2 (announces ?d')
        (concat (map (\<lambda>(k, cg). map (\<lambda>c. (c, sr_cg_name cg)) (sr_cg_channels cg)) ?gs)) new1"
    using an1 announces_grows[OF gr] by (rule list_all2_mono)
  have 1: "channel_added_emitted ?d' = channel_added_emitted d @ (new1 @ new2)"
    using em1 em2 by simp
  have 2: "list_all2 (announces ?d') (discoveries d) (new1 @ new2)"
    using list_all2_appendI[OF an1' an2] by (simp only: discoveries_unfold)
  from 1 2 show "\<exists>new. channel_added_emitted ?d' = channel_added_emitted d @ new \<and>
         list_all2 (announces ?d') (discoveries d) new"
    by blast
next
  let ?r = "add_channel d0 p g"
  let ?em = "emission_of ?r p"
  have a: "channel_added_emitted ?r = channel_added_emitted d0 @ [?em]"
    by (rule add_channel_emits)
  have b: "em_channel ?em = p" by (simp add: emission_of_def)
  have c: "p \<in> set (map_index (em_channel_group_name_map ?em) g)"
    by (simp add: emission_of_def add_channel_groups)
  have d: "g \<in> channel_group_names (em_channel_store ?em p)"
    by (simp add: emission_of_def add_channel_store)
  have e: "channel_name_map d0 (ch_name (channel_store d0 p)) = None \<or>
       channel_name_map d0 (ch_name (channel_store d0 p)) = Some p \<longrightarrow>
         emitted_registered ?em (ch_name (channel_store d0 p)) g"
    by (auto simp: emitted_registered_def emission_of_def add_channel_names add_channel_groups
          add_channel_store map_insert_def)
  from a b c d e show "\<exists>em. channel_added_emitted ?r = channel_added_emitted d0 @ [em] \<and>
      em_channel em = p \<and>
      p \<in> set (map_index (em_channel_group_name_map em) g) \<and>
      g \<in> channel_group_names (em_channel_store em p) \<and>
      (channel_name_map d0 (ch_name (channel_store d0 p)) = None \<or>
       channel_name_map d0 (ch_name (channel_store d0 p)) = Some p \<longrightarrow>
         emitted_registered em (ch_name (channel_store d0 p)) g)"
    by (intro exI[of _ ?em] conjI)
qed

lemmas two_group_defs = two_group_device_def BaseDevice_def two_group_sr_device_def
  demo_ch1_def init_channels_def add_sr_channel_def add_channel_def map_insert_def
  map_index_def HardwareChannel_def add_channel_group_name_def emission_of_def Let_def

lemma fresh_registry_inv: "registry_inv (BaseDevice sr_dev t)"
  by (simp add: registry_inv_def BaseDevice_def)

lemma two_group_device_state:
  "channel_name_map two_group_device ''CH1'' = Some 0"
  "channel_count two_group_device = Suc 0"
  "map em_channel (channel_added_emitted two_group_device) = [0, 0]"
  "map_index (channel_group_name_map two_group_device) ''G1'' = [0]"
  "map_index (channel_group_name_map two_group_device) ''G2'' = [0]"
  "channel_group_names (channel_store two_group_device 0) = {''G1'', ''G2''}"
  "ch_name (channel_store two_group_device 0) = ''CH1''"
  by (simp_all add: two_group_defs insert_commute)

lemma two_group_discoveries:
  "discoveries (BaseDevice two_group_sr_device 0) = [(demo_ch1, ''G1''), (demo_ch1, ''G2'')]"
  by (simp add: discoveries_def two_group_defs)

theorem channel_identity_stability_witness:
  "registry_inv (BaseDevice two_group_sr_device 0) \<and>
   channels_named (init_channels (BaseDevice two_group_sr_device 0)) ''CH1'' = [0] \<and>
   channel_name_map (init_channels (BaseDevice two_group_sr_device 0)) ''CH1'' = Some 0 \<and>
   0 \<in> set (map_index (channel_group_name_map (init_channels (BaseDevice two_group_sr_device 0)))
              ''G1'') \<and>
   0 \<in> set (map_index (channel_group_name_map (init_channels (BaseDevice two_group_sr_device 0)))
              ''G2'') \<and>
   ''G1'' \<in> channel_group_names (channel_store (init_channels (BaseDevice two_group_sr_device 0)) 0) \<and>
   ''G2'' \<in> channel_group_names (channel_store (init_channels (BaseDevice two_group_sr_device 0)) 0)"
proof -
  let ?d = "BaseDevice two_group_sr_device 0"
  let ?g1 = "\<lparr>sr_cg_name = ''G1'', sr_cg_channels = [demo_ch1]\<rparr>"
  let ?g2 = "\<lparr>sr_cg_name = ''G2'', sr_cg_channels = [demo_ch1]\<rparr>"
  have inv: "registry_inv ?d" by (rule fresh_registry_inv)
  have g1: "(''G1'', ?g1) \<in> set (sr_dev_channel_groups (sr_device ?d))"
    and g2: "(''G2'', ?g2) \<in> set (sr_dev_channel_groups (sr_device ?d))"
    by (simp_all add: BaseDevice_def two_group_sr_device_def)
  have c1: "demo_ch1 \<in> set (sr_cg_channels ?g1)" and c2: "demo_ch1 \<in> set (sr_cg_channels ?g2)"
    by simp_all
  have n: "sr_channel_name demo_ch1 = ''CH1''" by (simp add: demo_ch1_def)
  from channel_identity_stability[OF inv g1 c1 g2 c2 n n] obtain p where
    p: "channels_named (init_channels ?d) ''CH1'' = [p]"
      "channel_name_map (init_channels ?d) ''CH1'' = Some p"
      "p \<in> set (map_index (channel_group_name_map (init_channels ?d)) (sr_cg_name ?g1))"
      "p \<in> set (map_index (channel_group_name_map (init_channels ?d)) (sr_cg_name ?g2))"
      "sr_cg_name ?g1 \<in> channel_group_names (channel_store (init_channels ?d) p)"
      "sr_cg_name ?g2 \<in> channel_group_names (channel_store (init_channels ?d) p)"
    by blast
  from p(2) two_group_device_state(1) have "p = 0" by (simp add: two_group_device_def)
  with p inv show ?thesis by simp
qed

theorem channel_added_once_per_discovery_witness:
  "registry_inv (BaseDevice two_group_sr_device 0) \<and>
   discoveries (BaseDevice two_group_sr_device 0) = [(demo_ch1, ''G1''), (demo_ch1, ''G2'')] \<and>
   (\<exists>em1 em2. channel_added_emitted (init_channels (BaseDevice two_group_sr_device 0)) = [em1, em2] \<and>
      em_channel em1 = 0 \<and> em_channel em2 = 0 \<and>
      emitted_registered em1 ''CH1'' ''G1'' \<and> emitted_registered em2 ''CH1'' ''G2'')"
proof -
  let ?d = "BaseDevice two_group_sr_device 0"
  have inv: "registry_inv ?d" by (rule fresh_registry_inv)
  have e0: "channel_added_emitted ?d = []" by (simp add: BaseDevice_def)
  have nm: "channel_name_map (init_channels ?d) ''CH1'' = Some 0"
    using two_group_device_state(1) by (simp add: two_group_device_def)
  have n: "sr_channel_name demo_ch1 = ''CH1''" by (simp add: demo_ch1_def)
  from channel_added_once_per_discovery[of ?d, THEN conjunct1, rule_format, OF inv]
  obtain new where em: "channel_added_emitted (init_channels ?d) = new"
    and an: "list_all2 (announces (init_channels ?d)) [(demo_ch1, ''G1''), (demo_ch1, ''G2'')] new"
    by (auto simp: e0 two_group_discoveries)
  from an obtain em1 em2 where new: "new = [em1, em2]"
    and a1: "announces (init_channels ?d) (demo_ch1, ''G1'') em1"
    and a2: "announces (init_channels ?d) (demo_ch1, ''G2'') em2"
    by (auto simp: list_all2_Cons1)
  from a1 a2 nm n have "em_channel em1 = 0" "em_channel em2 = 0"
    "emitted_registered em1 ''CH1'' ''G1''" "emitted_registered em2 ''CH1'' ''G2''"
    by (simp_all add: announces_def)
  with em new have "\<exists>em1 em2. channel_added_emitted (init_channels ?d) = [em1, em2] \<and>
      em_channel em1 = 0 \<and> em_channel em2 = 0 \<and>
      emitted_registered em1 ''CH1'' ''G1'' \<and> emitted_registered em2 ''CH1'' ''G2''"
    by (intro exI[of _ em1] exI[of _ em2] conjI) simp_all
  with inv two_group_discoveries show ?thesis by (intro conjI)
qed

theorem channel_added_twice_counterexample:
  "channels_named two_group_device ''CH1'' = [0] \<and>
   map em_channel (channel_added_emitted two_group_device) = [0, 0] \<and>
   count_list (map em_channel (channel_added_emitted two_group_device)) 0 = 2"
  by (simp add: channels_named_def two_group_device_state)

end
